theory Spec2Isabelle
  imports Main
begin

text \<open>
  A shallow embedding of \<open>webscraping-colab-notebook.py\<close>: the class \<open>WebExtractor\<close>
  with the one method of \<open>BaseScraper\<close> it calls. The instance fields are a record that
  every method takes and returns; an exception is the left summand of a result, and the
  session it leaves behind is returned with it. What the program imports (\<open>requests\<close>,
  \<open>bs4\<close>, \<open>transformers\<close>, \<open>json\<close>, \<open>pandas\<close>) is a parameter of every function.
  \<open>HTMLScraper.extract\<close> and \<open>JSONScraper.extract\<close> are never called by \<open>process_query\<close>
  and are left out.
\<close>

section \<open>Python strings\<close>

text \<open>
  A Python \<open>str\<close> is modelled as a \<^typ>\<open>string\<close>; one \<^typ>\<open>char\<close> stands for one
  code point below 256, so \<^const>\<open>length\<close> counts what Python's \<open>len\<close> counts on such
  strings. Indices returned by \<open>find\<close> and \<open>rfind\<close> are integers, because \<open>-1\<close> is
  the "not found" value the source tests for.
\<close>

definition lower_char :: "char \<Rightarrow> char" where
  \<comment> \<open>\<open>str.lower\<close> on one code point below 256: A-Z and the Latin-1 capitals.\<close>
  "lower_char c =
     (let n = (of_char c :: nat)
      in if (65 \<le> n \<and> n \<le> 90) \<or> (192 \<le> n \<and> n \<le> 222 \<and> n \<noteq> 215)
         then char_of (n + 32) else c)"

definition lower :: "string \<Rightarrow> string" where
  "lower s = map lower_char s"

definition startswith :: "string \<Rightarrow> string \<Rightarrow> bool" where
  "startswith s p = (take (length p) s = p)"

fun contains :: "string \<Rightarrow> string \<Rightarrow> bool" where
  \<comment> \<open>\<open>sub in s\<close>\<close>
  "contains [] sub = (sub = [])"
| "contains (c # cs) sub = (startswith (c # cs) sub \<or> contains cs sub)"

definition py_find :: "string \<Rightarrow> char \<Rightarrow> int" where
  \<comment> \<open>\<open>s.find(c)\<close>: the index of the first occurrence, or \<open>-1\<close>.\<close>
  "py_find s c = (if c \<in> set s then int (length (takeWhile (\<lambda>x. x \<noteq> c) s)) else - 1)"

definition py_rfind :: "string \<Rightarrow> char \<Rightarrow> int" where
  \<comment> \<open>\<open>s.rfind(c)\<close>: the index of the last occurrence, or \<open>-1\<close>.\<close>
  "py_rfind s c =
     (if c \<in> set s then int (length s) - 1 - int (length (takeWhile (\<lambda>x. x \<noteq> c) (rev s)))
      else - 1)"

definition clamp_index :: "nat \<Rightarrow> int \<Rightarrow> nat" where
  \<comment> \<open>How a slice bound is read: a negative bound counts from the end, then it is clipped.\<close>
  "clamp_index n i = (let j = (if i < 0 then i + int n else i) in min n (nat (max 0 j)))"

definition slice :: "string \<Rightarrow> int \<Rightarrow> int \<Rightarrow> string" where
  \<comment> \<open>\<open>s[a:b]\<close>\<close>
  "slice s a b =
     (let lo = clamp_index (length s) a; hi = clamp_index (length s) b
      in drop lo (take hi s))"

fun join :: "string \<Rightarrow> string list \<Rightarrow> string" where
  \<comment> \<open>\<open>sep.join(xs)\<close>\<close>
  "join sep [] = []"
| "join sep [x] = x"
| "join sep (x # y # ys) = x @ sep @ join sep (y # ys)"

definition is_linebreak :: "char \<Rightarrow> bool" where
  \<comment> \<open>The line boundaries of \<open>str.splitlines\<close> below 256: LF, VT, FF, CR, FS, GS, RS, NEL.\<close>
  "is_linebreak c = ((of_char c :: nat) \<in> {10, 11, 12, 13, 28, 29, 30, 133})"

definition is_space :: "char \<Rightarrow> bool" where
  \<comment> \<open>What \<open>str.strip()\<close> removes below 256: the line boundaries, TAB, US, space, NBSP.\<close>
  "is_space c = ((of_char c :: nat) \<in> {9, 10, 11, 12, 13, 28, 29, 30, 31, 32, 133, 160})"

fun splitlines_from :: "string \<Rightarrow> string \<Rightarrow> string list" where
  \<comment> \<open>The first argument is the line read so far, reversed.\<close>
  "splitlines_from cur [] = (if cur = [] then [] else [rev cur])"
| "splitlines_from cur [c] = (if is_linebreak c then [rev cur] else [rev (c # cur)])"
| "splitlines_from cur (c # d # cs) =
     (if c = CHR 0x0D \<and> d = CHR 0x0A then rev cur # splitlines_from [] cs
      else if is_linebreak c then rev cur # splitlines_from [] (d # cs)
      else splitlines_from (c # cur) (d # cs))"

definition splitlines :: "string \<Rightarrow> string list" where
  \<comment> \<open>\<open>s.splitlines()\<close>: CR LF is one boundary, and a final boundary opens no empty line.\<close>
  "splitlines s = splitlines_from [] s"

definition strip :: "string \<Rightarrow> string" where
  \<comment> \<open>\<open>s.strip()\<close>\<close>
  "strip s = rev (dropWhile is_space (rev (dropWhile is_space s)))"

fun split :: "string \<Rightarrow> char \<Rightarrow> string list" where
  \<comment> \<open>\<open>s.split(c)\<close> with an explicit separator: empty pieces are kept.\<close>
  "split [] sep = [[]]"
| "split (c # cs) sep =
     (if c = sep then [] # split cs sep
      else (case split cs sep of [] \<Rightarrow> [[c]] | p # ps \<Rightarrow> (c # p) # ps))"

section \<open>Decoded JSON, errors, the session and the libraries\<close>

text \<open>
  What \<open>json.loads\<close> returns, without floats: \<open>None\<close>, \<open>bool\<close>, \<open>int\<close>, \<open>str\<close>,
  \<open>list\<close> and \<open>dict\<close>. A \<open>dict\<close> keeps insertion order, so it is an association list.
\<close>

datatype json =
    JNull
  | JBool bool
  | JInt int
  | JStr string
  | JArr "json list"
  | JObj "(string \<times> json) list"

fun truthy :: "json \<Rightarrow> bool" where
  \<comment> \<open>Python's truth value of a decoded document, as \<open>if not parsed_data\<close> reads it.\<close>
  "truthy JNull = False"
| "truthy (JBool b) = b"
| "truthy (JInt i) = (i \<noteq> 0)"
| "truthy (JStr s) = (s \<noteq> [])"
| "truthy (JArr xs) = (xs \<noteq> [])"
| "truthy (JObj kvs) = (kvs \<noteq> [])"

text \<open>The exceptions that leave \<open>process_query\<close>; \<open>JSONDecodeError\<close> never does.\<close>

datatype error =
    RequestError    \<comment> \<open>\<open>requests.get\<close> failed, or \<open>raise_for_status\<close> on a non-2xx answer\<close>
  | ParserRejectedMarkup  \<comment> \<open>\<open>BeautifulSoup\<close> could not parse the content\<close>
  | ModelError      \<comment> \<open>the text-generation call failed\<close>
  | TypeError       \<comment> \<open>iterating a value that is not iterable\<close>
  | AttributeError  \<comment> \<open>\<open>.items()\<close> on a value that is not a \<open>dict\<close>\<close>
  | FrameError      \<comment> \<open>\<open>pandas\<close> could not build or print the frame\<close>

record session =
  current_url :: "string option"
  current_content :: "string option"
  preprocessed_content :: "string option"

definition init :: session where
  \<comment> \<open>\<open>WebExtractor.__init__\<close>\<close>
  "init = \<lparr>current_url = None, current_content = None, preprocessed_content = None\<rparr>"

text \<open>
  The libraries and the outside world the program calls are parameters of the model:
  each field is one call of the source, named in its comment.
\<close>

record env =
  requests_get :: "string \<Rightarrow> error + string"
    \<comment> \<open>\<open>requests.get(url)\<close>, \<open>raise_for_status()\<close>, \<open>.text\<close>\<close>
  soup_text :: "string \<Rightarrow> error + string"
    \<comment> \<open>\<open>BeautifulSoup(content, 'html.parser')\<close>, which raises on markup the parser
        rejects, then every \<open>script\<close> and \<open>style\<close> decomposed and \<open>get_text()\<close>\<close>
  generate :: "string \<Rightarrow> error + string"
    \<comment> \<open>\<open>self.model(prompt, max_length=500, num_return_sequences=1)[0]['generated_text']\<close>\<close>
  loads :: "string \<Rightarrow> json option"
    \<comment> \<open>\<open>json.loads\<close>; \<open>None\<close> is \<open>JSONDecodeError\<close>\<close>
  dumps :: "json \<Rightarrow> string"
    \<comment> \<open>\<open>json.dumps(v)\<close>\<close>
  dumps_indent2 :: "json \<Rightarrow> string"
    \<comment> \<open>\<open>json.dumps(v, indent=2)\<close>\<close>
  frame_to_csv :: "json \<Rightarrow> error + string"
    \<comment> \<open>\<open>pd.DataFrame(v).to_csv(index=False)\<close>\<close>

section \<open>The scraper and the extractor\<close>

definition fetch_content :: "env \<Rightarrow> string \<Rightarrow> error + string" where
  \<comment> \<open>\<open>BaseScraper.fetch_content\<close>\<close>
  "fetch_content env url = requests_get env url"

definition flatten_text :: "string \<Rightarrow> string" where
  \<comment> \<open>\<open>_preprocess_content\<close> after \<open>get_text()\<close>: the lines, the chunks, the join.\<close>
  "flatten_text text =
     (let lines = map strip (splitlines text);
          chunks = concat (map (\<lambda>line. map strip (split line CHR '' '')) lines)
      in join ''\<newline>'' (filter (\<lambda>chunk. chunk \<noteq> []) chunks))"

definition chunks :: "string \<Rightarrow> string list" where
  \<comment> \<open>The chunks \<open>flatten_text\<close> joins.\<close>
  "chunks text =
     filter (\<lambda>chunk. chunk \<noteq> [])
       (concat (map (\<lambda>line. map strip (split line CHR '' '')) (map strip (splitlines text))))"

definition chunk :: "string \<Rightarrow> bool" where
  \<comment> \<open>What every such chunk is: not empty, free of line boundaries and of spaces, and
      with no white space at either end.\<close>
  "chunk c =
     (c \<noteq> [] \<and> (\<forall>x \<in> set c. \<not> is_linebreak x \<and> x \<noteq> CHR '' '')
      \<and> \<not> is_space (hd c) \<and> \<not> is_space (last c))"

definition preprocess_content :: "env \<Rightarrow> string \<Rightarrow> error + string" where
  \<comment> \<open>\<open>_preprocess_content\<close>: an exception of the parser leaves it as it was raised.\<close>
  "preprocess_content env content =
     (case soup_text env content of
        Inl e \<Rightarrow> Inl e
      | Inr text \<Rightarrow> Inr (flatten_text text))"

definition fetched_message :: "string \<Rightarrow> string" where
  "fetched_message url =
     ''I've fetched and preprocessed the content from '' @ url
       @ ''. What would you like to know about it?''"

definition fetch_url :: "env \<Rightarrow> session \<Rightarrow> string \<Rightarrow> (error + string) \<times> session" where
  \<comment> \<open>The assignments happen in the source's order; an exception, of the request or of
      the preprocessing, leaves the ones made before it.\<close>
  "fetch_url env s url =
     (let s1 = s\<lparr>current_url := Some url\<rparr>
      in case fetch_content env url of
           Inl e \<Rightarrow> (Inl e, s1)
         | Inr content \<Rightarrow>
             (let s2 = s1\<lparr>current_content := Some content\<rparr>
              in case preprocess_content env content of
                   Inl e \<Rightarrow> (Inl e, s2)
                 | Inr text \<Rightarrow>
                     (Inr (fetched_message url), s2\<lparr>preprocessed_content := Some text\<rparr>)))"

definition no_page_message :: string where
  "no_page_message = ''Please provide a URL first before asking for information.''"

definition no_json_message :: string where
  "no_json_message = ''Error: Could not extract JSON data from the model's response.''"

definition invalid_json_message :: "string \<Rightarrow> string" where
  \<comment> \<open>\<open>f"Error: Invalid JSON data. Raw data: {data[:500]}..."\<close>\<close>
  "invalid_json_message data = ''Error: Invalid JSON data. Raw data: '' @ take 500 data @ ''...''"

definition unset :: "string option \<Rightarrow> bool" where
  \<comment> \<open>\<open>not x\<close> for an optional string: \<open>None\<close> and the empty string are false.\<close>
  "unset x = (case x of None \<Rightarrow> True | Some s \<Rightarrow> s = [])"

definition build_prompt :: "string \<Rightarrow> string \<Rightarrow> string" where
  \<comment> \<open>The f-string of \<open>_extract_info\<close>; its continuation lines carry eight spaces.\<close>
  "build_prompt content query =
     ''Based on the following webpage content and the user's request, extract the relevant information.\<newline>''
     @ ''        Always present the data as a JSON array of objects.\<newline>''
     @ ''        Webpage content: '' @ take 500 content @ ''...\<newline>''
     @ ''        Human: '' @ query @ ''\<newline>''
     @ ''        AI:''"

fun show_nat :: "nat \<Rightarrow> string" where
  \<comment> \<open>\<open>str(n)\<close> for \<open>n \<ge> 0\<close>: decimal digits, no leading zero.\<close>
  "show_nat n =
     (if n < 10 then [char_of (48 + n)] else show_nat (n div 10) @ [char_of (48 + n mod 10)])"

declare show_nat.simps [simp del]

definition show_int :: "int \<Rightarrow> string" where
  "show_int i = (if i < 0 then CHR ''-'' # show_nat (nat (- i)) else show_nat (nat i))"

definition printable :: "char \<Rightarrow> bool" where
  \<comment> \<open>\<open>str.isprintable\<close> on one code point below 256.\<close>
  "printable c =
     (let n = (of_char c :: nat) in (32 \<le> n \<and> n \<le> 126) \<or> (161 \<le> n \<and> n \<noteq> 173))"

definition hex_char :: "nat \<Rightarrow> char" where
  \<comment> \<open>One lower-case hexadecimal digit.\<close>
  "hex_char d = (if d < 10 then char_of (48 + d) else char_of (87 + d))"

definition repr_char :: "char \<Rightarrow> char \<Rightarrow> string" where
  "repr_char quote c =
     (let n = (of_char c :: nat)
      in if c = quote \<or> c = CHR 0x5C then [CHR 0x5C, c]
         else if c = CHR 0x09 then [CHR 0x5C, CHR ''t'']
         else if c = CHR 0x0A then [CHR 0x5C, CHR ''n'']
         else if c = CHR 0x0D then [CHR 0x5C, CHR ''r'']
         else if printable c then [c]
         else [CHR 0x5C, CHR ''x'', hex_char (n div 16), hex_char (n mod 16)])"

definition repr_str :: "string \<Rightarrow> string" where
  \<comment> \<open>\<open>repr(s)\<close>: double quotes only when \<open>s\<close> has a single quote and no double one.\<close>
  "repr_str s =
     (let quote = (if CHR 0x27 \<in> set s \<and> CHR 0x22 \<notin> set s then CHR 0x22 else CHR 0x27)
      in quote # concat (map (repr_char quote) s) @ [quote])"

fun py_repr :: "json \<Rightarrow> string" where
  "py_repr JNull = ''None''"
| "py_repr (JBool b) = (if b then ''True'' else ''False'')"
| "py_repr (JInt i) = show_int i"
| "py_repr (JStr s) = repr_str s"
| "py_repr (JArr xs) = ''['' @ join '', '' (map py_repr xs) @ '']''"
| "py_repr (JObj kvs) =
     ''{'' @ join '', '' (map (\<lambda>(k, v). repr_str k @ '': '' @ py_repr v) kvs) @ ''}''"

fun py_str :: "json \<Rightarrow> string" where
  \<comment> \<open>\<open>str(v)\<close>, as \<open>f"{k}: {v}"\<close> prints a value.\<close>
  "py_str (JStr s) = s"
| "py_str v = py_repr v"

definition format_as_json :: "env \<Rightarrow> string \<Rightarrow> error + string" where
  "format_as_json env data =
     (case loads env data of
        Some parsed_data \<Rightarrow> Inr (''```json\<newline>'' @ dumps_indent2 env parsed_data @ ''\<newline>```'')
      | None \<Rightarrow> Inr (invalid_json_message data))"

definition format_as_csv :: "env \<Rightarrow> string \<Rightarrow> error + string" where
  "format_as_csv env data =
     (case loads env data of
        Some parsed_data \<Rightarrow>
          (if \<not> truthy parsed_data then Inr ''No data to convert to CSV.''
           else (case frame_to_csv env parsed_data of
                   Inl e \<Rightarrow> Inl e
                 | Inr csv \<Rightarrow> Inr (''```csv\<newline>'' @ csv @ ''\<newline>```'')))
      | None \<Rightarrow> Inr (invalid_json_message data))"

fun item_line :: "json \<Rightarrow> error + string" where
  \<comment> \<open>\<open>", ".join([f"{k}: {v}" for k, v in item.items()])\<close>; only a \<open>dict\<close> has
      \<open>items\<close>.\<close>
  "item_line (JObj kvs) = Inr (join '', '' (map (\<lambda>(k, v). k @ '': '' @ py_str v) kvs))"
| "item_line v = Inl AttributeError"

fun item_lines :: "json list \<Rightarrow> error + string list" where
  \<comment> \<open>The outer comprehension: it stops at the first item that raises.\<close>
  "item_lines [] = Inr []"
| "item_lines (item # items) =
     (case item_line item of
        Inl e \<Rightarrow> Inl e
      | Inr l \<Rightarrow> (case item_lines items of Inl e \<Rightarrow> Inl e | Inr ls \<Rightarrow> Inr (l # ls)))"

fun iterate :: "json \<Rightarrow> error + json list" where
  \<comment> \<open>\<open>for item in parsed_data\<close>: a \<open>dict\<close> gives its keys, a \<open>str\<close> its characters.\<close>
  "iterate (JArr items) = Inr items"
| "iterate (JObj kvs) = Inr (map (\<lambda>(k, v). JStr k) kvs)"
| "iterate (JStr s) = Inr (map (\<lambda>c. JStr [c]) s)"
| "iterate v = Inl TypeError"

definition format_as_text :: "env \<Rightarrow> string \<Rightarrow> error + string" where
  "format_as_text env data =
     (case loads env data of
        Some parsed_data \<Rightarrow>
          (case iterate parsed_data of
             Inl e \<Rightarrow> Inl e
           | Inr items \<Rightarrow>
               (case item_lines items of
                  Inl e \<Rightarrow> Inl e
                | Inr ls \<Rightarrow> Inr (join ''\<newline>'' ls)))
      | None \<Rightarrow> Inr data)"

definition format_result :: "env \<Rightarrow> string \<Rightarrow> string \<Rightarrow> error + string" where
  "format_result env extracted_data query =
     (if contains (lower query) ''json'' then format_as_json env extracted_data
      else if contains (lower query) ''csv'' then format_as_csv env extracted_data
      else format_as_text env extracted_data)"

definition parse_response :: "env \<Rightarrow> string \<Rightarrow> string \<Rightarrow> error + string" where
  \<comment> \<open>\<open>_extract_info\<close> from \<open>json_start = response.find('[')\<close> to its end.\<close>
  "parse_response env response query =
     (let json_start = py_find response CHR ''['';
          json_end = py_rfind response CHR '']'' + 1
      in if json_start \<noteq> - 1 \<and> json_end \<noteq> - 1 then
           (let json_str = slice response json_start json_end
            in case loads env json_str of
                 Some extracted_data \<Rightarrow> format_result env (dumps env extracted_data) query
               | None \<Rightarrow> Inr (invalid_json_message json_str))
         else Inr no_json_message)"

definition extract_info :: "env \<Rightarrow> session \<Rightarrow> string \<Rightarrow> error + string" where
  \<comment> \<open>\<open>_extract_info\<close>; it reads the session and never writes it.\<close>
  "extract_info env s query =
     (case preprocessed_content s of
        None \<Rightarrow> Inr no_page_message
      | Some content \<Rightarrow>
          (if content = [] then Inr no_page_message
           else (case generate env (build_prompt content query) of
                   Inl e \<Rightarrow> Inl e
                 | Inr response \<Rightarrow> parse_response env response query)))"

definition process_query :: "env \<Rightarrow> session \<Rightarrow> string \<Rightarrow> (error + string) \<times> session" where
  "process_query env s user_input =
     (if startswith (lower user_input) ''http'' then fetch_url env s user_input
      else if unset (current_content s) then (Inr no_page_message, s)
      else (extract_info env s user_input, s))"

fun run_queries :: "env \<Rightarrow> session \<Rightarrow> string list \<Rightarrow> (error + string) list \<times> session" where
  \<comment> \<open>One \<open>process_query\<close> after another on the same extractor, as the usage example
      does: the replies in order, and the session they leave. An exception ends only its
      own call here; the session keeps what that call had assigned.\<close>
  "run_queries env s [] = ([], s)"
| "run_queries env s (q # qs) =
     (let (reply, s') = process_query env s q;
          (replies, s'') = run_queries env s' qs
      in (reply # replies, s''))"

section \<open>The \<open>json\<close> module on documents without floats\<close>

text \<open>
  A model of the standard library's encoder and decoder, written after \<open>json.encoder\<close>
  and \<open>json.decoder\<close>. It is the library on documents whose numbers are integers and
  whose code points are below 256. A number with a fraction or an exponent, \<open>NaN\<close> and
  \<open>Infinity\<close> decode to a Python float and an escape \<open>\u0100\<close> or above to a code point
  the model's strings do not have: the decoder below rejects them. The programs of this
  theory take the decoder as a field of \<^typ>\<open>env\<close>, so their theorems do not depend on
  this restriction; it is used where a closed example needs a decoder and for the round
  trip of the encoder. Integers have any number of digits here.
\<close>

definition is_json_ws :: "char \<Rightarrow> bool" where
  \<comment> \<open>\<open>WHITESPACE\<close>: space, tab, line feed, carriage return.\<close>
  "is_json_ws c = (c = CHR '' '' \<or> c = CHR 0x09 \<or> c = CHR 0x0A \<or> c = CHR 0x0D)"

definition skip_ws :: "string \<Rightarrow> string" where
  "skip_ws s = dropWhile is_json_ws s"

definition escape_char :: "char \<Rightarrow> string" where
  \<comment> \<open>\<open>ESCAPE_DCT\<close> and the \<open>\u00xx\<close> form, for \<open>ensure_ascii=True\<close>: only
      \<open>' '\<close> to \<open>'~'\<close> stay as they are, but for the quote and the backslash.\<close>
  "escape_char c =
     (let n = (of_char c :: nat)
      in if c = CHR 0x22 then [CHR 0x5C, CHR 0x22]
         else if c = CHR 0x5C then [CHR 0x5C, CHR 0x5C]
         else if c = CHR 0x0A then [CHR 0x5C, CHR ''n'']
         else if c = CHR 0x0D then [CHR 0x5C, CHR ''r'']
         else if c = CHR 0x09 then [CHR 0x5C, CHR ''t'']
         else if c = CHR 0x08 then [CHR 0x5C, CHR ''b'']
         else if c = CHR 0x0C then [CHR 0x5C, CHR ''f'']
         else if 32 \<le> n \<and> n \<le> 126 then [c]
         else [CHR 0x5C, CHR ''u'', CHR ''0'', CHR ''0'', hex_char (n div 16), hex_char (n mod 16)])"

definition encode_basestring_ascii :: "string \<Rightarrow> string" where
  \<comment> \<open>\<open>py_encode_basestring_ascii\<close>\<close>
  "encode_basestring_ascii s = CHR 0x22 # concat (map escape_char s) @ [CHR 0x22]"

definition newline_indent :: "nat option \<Rightarrow> nat \<Rightarrow> string" where
  \<comment> \<open>\<open>'\n' + _indent * _current_indent_level\<close>, or nothing without \<open>indent\<close>.\<close>
  "newline_indent indent level =
     (case indent of None \<Rightarrow> [] | Some n \<Rightarrow> CHR 0x0A # replicate (n * level) CHR '' '')"

definition item_separator :: "nat option \<Rightarrow> string" where
  \<comment> \<open>\<open>', '\<close> by default and \<open>','\<close> with \<open>indent\<close>; the key separator is \<open>': '\<close> in
      both.\<close>
  "item_separator indent = (case indent of None \<Rightarrow> '', '' | Some n \<Rightarrow> '','')"

fun iterencode :: "nat option \<Rightarrow> nat \<Rightarrow> json \<Rightarrow> string" where
  \<comment> \<open>\<open>_make_iterencode\<close>: \<open>_iterencode\<close>, \<open>_iterencode_list\<close>, \<open>_iterencode_dict\<close>.\<close>
  "iterencode indent level JNull = ''null''"
| "iterencode indent level (JBool b) = (if b then ''true'' else ''false'')"
| "iterencode indent level (JInt i) = show_int i"
| "iterencode indent level (JStr s) = encode_basestring_ascii s"
| "iterencode indent level (JArr xs) =
     (if xs = [] then ''[]''
      else ''['' @ newline_indent indent (level + 1)
           @ join (item_separator indent @ newline_indent indent (level + 1))
                  (map (iterencode indent (level + 1)) xs)
           @ newline_indent indent level @ '']'')"
| "iterencode indent level (JObj kvs) =
     (if kvs = [] then ''{}''
      else ''{'' @ newline_indent indent (level + 1)
           @ join (item_separator indent @ newline_indent indent (level + 1))
                  (map (\<lambda>(k, v). encode_basestring_ascii k @ '': '' @ iterencode indent (level + 1) v) kvs)
           @ newline_indent indent level @ ''}'')"

definition json_dumps :: "json \<Rightarrow> string" where
  \<comment> \<open>\<open>json.dumps(v)\<close>\<close>
  "json_dumps v = iterencode None 0 v"

definition json_dumps_indent :: "nat \<Rightarrow> json \<Rightarrow> string" where
  \<comment> \<open>\<open>json.dumps(v, indent=n)\<close>\<close>
  "json_dumps_indent n v = iterencode (Some n) 0 v"

definition hex_value :: "char \<Rightarrow> nat option" where
  \<comment> \<open>One hexadecimal digit of a \<open>\uXXXX\<close> escape, in either case.\<close>
  "hex_value c =
     (let n = (of_char c :: nat)
      in if 48 \<le> n \<and> n \<le> 57 then Some (n - 48)
         else if 97 \<le> n \<and> n \<le> 102 then Some (n - 87)
         else if 65 \<le> n \<and> n \<le> 70 then Some (n - 55)
         else None)"

definition unescape :: "char \<Rightarrow> char option" where
  \<comment> \<open>\<open>BACKSLASH\<close>\<close>
  "unescape e =
     (if e = CHR 0x22 then Some (CHR 0x22)
      else if e = CHR 0x5C then Some (CHR 0x5C)
      else if e = CHR ''/'' then Some (CHR ''/'')
      else if e = CHR ''b'' then Some (CHR 0x08)
      else if e = CHR ''f'' then Some (CHR 0x0C)
      else if e = CHR ''n'' then Some (CHR 0x0A)
      else if e = CHR ''r'' then Some (CHR 0x0D)
      else if e = CHR ''t'' then Some (CHR 0x09)
      else None)"

fun scanstring :: "string \<Rightarrow> (string \<times> string) option" where
  \<comment> \<open>\<open>scanstring\<close> with \<open>strict=True\<close>, from the character after the opening quote:
      the string and what follows its closing quote.\<close>
  "scanstring [] = None"
| "scanstring (c # cs) =
     (if c = CHR 0x22 then Some ([], cs)
      else if c = CHR 0x5C then
        (case cs of
           [] \<Rightarrow> None
         | e # es \<Rightarrow>
             (if e = CHR ''u'' then
                (case es of
                   h1 # h2 # h3 # h4 # rest \<Rightarrow>
                     (case (hex_value h1, hex_value h2, hex_value h3, hex_value h4) of
                        (Some d1, Some d2, Some d3, Some d4) \<Rightarrow>
                          (if d1 = 0 \<and> d2 = 0
                           then map_option (\<lambda>(str, r). (char_of (16 * d3 + d4) # str, r)) (scanstring rest)
                           else None)
                      | _ \<Rightarrow> None)
                 | _ \<Rightarrow> None)
              else (case unescape e of
                      None \<Rightarrow> None
                    | Some x \<Rightarrow> map_option (\<lambda>(str, r). (x # str, r)) (scanstring es))))
      else if (of_char c :: nat) < 32 then None
      else map_option (\<lambda>(str, r). (c # str, r)) (scanstring cs))"

definition is_digit :: "char \<Rightarrow> bool" where
  "is_digit c = (48 \<le> (of_char c :: nat) \<and> (of_char c :: nat) \<le> 57)"

definition nat_of_digits :: "string \<Rightarrow> nat" where
  "nat_of_digits ds = foldl (\<lambda>a c. 10 * a + (of_char c - 48)) 0 ds"

definition match_int :: "string \<Rightarrow> (string \<times> string) option" where
  \<comment> \<open>\<open>NUMBER_RE\<close> is \<open>(-?(?:0|[1-9]\d*))(\.\d+)?([eE][-+]?\d+)?\<close>; this is
      \<open>0|[1-9]\d*\<close>: the digits matched and the rest.\<close>
  "match_int s =
     (case s of
        [] \<Rightarrow> None
      | c # cs \<Rightarrow>
          (if c = CHR ''0'' then Some ([c], cs)
           else if is_digit c then Some (takeWhile is_digit s, dropWhile is_digit s)
           else None))"

definition match_frac :: "string \<Rightarrow> bool" where
  \<comment> \<open>Whether \<open>\.\d+\<close> matches.\<close>
  "match_frac s = (case s of c # d # r \<Rightarrow> c = CHR ''.'' \<and> is_digit d | _ \<Rightarrow> False)"

definition match_exp :: "string \<Rightarrow> bool" where
  \<comment> \<open>Whether \<open>[eE][-+]?\d+\<close> matches.\<close>
  "match_exp s =
     (case s of
        e # d # r \<Rightarrow>
          (e = CHR ''e'' \<or> e = CHR ''E'')
          \<and> (is_digit d \<or> ((d = CHR ''+'' \<or> d = CHR ''-'') \<and> (case r of d' # r' \<Rightarrow> is_digit d' | [] \<Rightarrow> False)))
      | _ \<Rightarrow> False)"

definition scan_number :: "string \<Rightarrow> (json \<times> string) option" where
  \<comment> \<open>An integer when neither the fraction nor the exponent matches; a float is outside
      this model.\<close>
  "scan_number s =
     (let neg = (case s of [] \<Rightarrow> False | c # cs \<Rightarrow> c = CHR ''-'');
          t = (if neg then tl s else s)
      in case match_int t of
           None \<Rightarrow> None
         | Some (ds, r) \<Rightarrow>
             (if match_frac r \<or> match_exp r then None
              else Some (JInt (if neg then - int (nat_of_digits ds) else int (nat_of_digits ds)), r)))"

fun dict_set :: "string \<Rightarrow> json \<Rightarrow> (string \<times> json) list \<Rightarrow> (string \<times> json) list" where
  "dict_set k v [] = [(k, v)]"
| "dict_set k v ((k', v') # kvs) =
     (if k' = k then (k', v) # kvs else (k', v') # dict_set k v kvs)"

definition dict :: "(string \<times> json) list \<Rightarrow> (string \<times> json) list" where
  \<comment> \<open>\<open>dict(pairs)\<close>: a repeated key keeps its first place and takes its last value.\<close>
  "dict pairs = foldl (\<lambda>d (k, v). dict_set k v d) [] pairs"

text \<open>
  \<open>scan_once\<close>, \<open>JSONArray\<close> and \<open>JSONObject\<close> of \<open>json.decoder\<close>. The library
  recurses on the position an inner call returns; the tests \<open>length r < length s\<close> make
  that recursion well-founded here, and \<open>scan_shorter\<close> below shows they never fail.
\<close>

function scan_once :: "string \<Rightarrow> (json \<times> string) option"
  and array_items :: "string \<Rightarrow> (json list \<times> string) option"
  and object_pairs :: "string \<Rightarrow> ((string \<times> json) list \<times> string) option"
where
  "scan_once s =
     (case s of
        [] \<Rightarrow> None
      | c # r \<Rightarrow>
          (if c = CHR 0x22 then map_option (\<lambda>(str, r'). (JStr str, r')) (scanstring r)
           else if c = CHR ''{'' then
             (case skip_ws r of
                [] \<Rightarrow> None
              | c' # r' \<Rightarrow>
                  (if c' = CHR ''}'' then Some (JObj [], r')
                   else map_option (\<lambda>(pairs, r''). (JObj (dict pairs), r'')) (object_pairs (c' # r'))))
           else if c = CHR ''['' then
             (case skip_ws r of
                [] \<Rightarrow> None
              | c' # r' \<Rightarrow>
                  (if c' = CHR '']'' then Some (JArr [], r')
                   else map_option (\<lambda>(values, r''). (JArr values, r'')) (array_items (c' # r'))))
           else if startswith s ''null'' then Some (JNull, drop 4 s)
           else if startswith s ''true'' then Some (JBool True, drop 4 s)
           else if startswith s ''false'' then Some (JBool False, drop 5 s)
           else scan_number s))"
| "array_items s =
     (case scan_once s of
        None \<Rightarrow> None
      | Some (v, r) \<Rightarrow>
          (case skip_ws r of
             [] \<Rightarrow> None
           | c # r' \<Rightarrow>
               (if c = CHR '']'' then Some ([v], r')
                else if c = CHR '','' \<and> length r' < length s
                then map_option (\<lambda>(values, r''). (v # values, r'')) (array_items (skip_ws r'))
                else None)))"
| "object_pairs s =
     (case s of
        [] \<Rightarrow> None
      | q # r \<Rightarrow>
          (if q \<noteq> CHR 0x22 then None
           else (case scanstring r of
                   None \<Rightarrow> None
                 | Some (key, r1) \<Rightarrow>
                     (case skip_ws r1 of
                        [] \<Rightarrow> None
                      | c # r2 \<Rightarrow>
                          (if c \<noteq> CHR '':'' \<or> \<not> length r2 < length s then None
                           else (case scan_once (skip_ws r2) of
                                   None \<Rightarrow> None
                                 | Some (v, r3) \<Rightarrow>
                                     (case skip_ws r3 of
                                        [] \<Rightarrow> None
                                      | c' # r4 \<Rightarrow>
                                          (if c' = CHR ''}'' then Some ([(key, v)], r4)
                                           else if c' = CHR '','' \<and> length r4 < length s
                                           then map_option (\<lambda>(pairs, r5). ((key, v) # pairs, r5))
                                                  (object_pairs (skip_ws r4))
                                           else None))))))))"
  by pat_completeness auto
termination
proof (relation "measure (\<lambda>x. case x of Inl s \<Rightarrow> 2 * length s
                                 | Inr (Inl s) \<Rightarrow> 2 * length s + 1
                                 | Inr (Inr s) \<Rightarrow> 2 * length s + 1)", goal_cases)
  case 1
  show ?case by simp
next
  case (2 s c r c' r')
  then show ?case
    using length_dropWhile_le [of is_json_ws r] by (simp add: skip_ws_def)
next
  case (3 s c r c' r')
  then show ?case
    using length_dropWhile_le [of is_json_ws r] by (simp add: skip_ws_def)
next
  case (4 s)
  show ?case by simp
next
  case (5 s p v r c r')
  then show ?case
    using length_dropWhile_le [of is_json_ws r'] by (simp add: skip_ws_def)
next
  case (6 s q r p key r1 c r2)
  then show ?case
    using length_dropWhile_le [of is_json_ws r2] by (simp add: skip_ws_def)
next
  case (7 s q r p key r1 c r2 p' v r3 c' r4)
  then show ?case
    using length_dropWhile_le [of is_json_ws r4] by (simp add: skip_ws_def)
qed

declare scan_once.simps [simp del] array_items.simps [simp del] object_pairs.simps [simp del]

definition json_loads :: "string \<Rightarrow> json option" where
  \<comment> \<open>\<open>JSONDecoder.decode\<close>: white space, one value, white space, the end.\<close>
  "json_loads s =
     (case scan_once (skip_ws s) of
        None \<Rightarrow> None
      | Some (v, r) \<Rightarrow> (if skip_ws r = [] then Some v else None))"

definition delimited :: "string \<Rightarrow> bool" where
  \<comment> \<open>What may follow an integer without changing how it is read.\<close>
  "delimited rest =
     (case rest of
        [] \<Rightarrow> True
      | c # r \<Rightarrow> \<not> is_digit c \<and> c \<noteq> CHR ''.'' \<and> c \<noteq> CHR ''e'' \<and> c \<noteq> CHR ''E'')"

definition value_start :: "char \<Rightarrow> bool" where
  \<comment> \<open>A first character that is neither white space nor a closing bracket.\<close>
  "value_start c = (\<not> is_json_ws c \<and> c \<noteq> CHR '']'' \<and> c \<noteq> CHR ''}'')"

fun keys_unique :: "json \<Rightarrow> bool" where
  \<comment> \<open>What every Python value has: the keys of a \<open>dict\<close> are distinct.\<close>
  "keys_unique (JArr xs) = (\<forall>x \<in> set xs. keys_unique x)"
| "keys_unique (JObj kvs) = (distinct (map fst kvs) \<and> (\<forall>kv \<in> set kvs. keys_unique (snd kv)))"
| "keys_unique v = True"

definition with_json :: "env \<Rightarrow> env" where
  \<comment> \<open>An environment whose \<open>json\<close> module is the model above.\<close>
  "with_json env = env\<lparr>loads := json_loads, dumps := json_dumps, dumps_indent2 := json_dumps_indent 2\<rparr>"

section \<open>A closed environment for the examples\<close>

text \<open>
  The closed examples below need an environment. Its markup parser is a stand-in that
  agrees with \<open>get_text()\<close> on documents made of character data, tags closed by
  \<open>>\<close> and the references \<open>&lt;\<close>, \<open>&gt;\<close> and \<open>&amp;\<close>, and that rejects the
  document \<open><![foo[\<close>, a marked section with an unknown keyword, as the library does;
  its web has five pages; its model answers every prompt with one fixed completion; no
  example reaches \<open>pandas\<close>.
\<close>

fun strip_tags :: "bool \<Rightarrow> string \<Rightarrow> string" where
  \<comment> \<open>The flag says whether the scan is inside a tag.\<close>
  "strip_tags in_tag [] = []"
| "strip_tags in_tag (c # cs) =
     (if in_tag then (if c = CHR ''>'' then strip_tags False cs else strip_tags True cs)
      else if c = CHR ''<'' then strip_tags True cs
      else c # strip_tags False cs)"

fun decode_refs :: "string \<Rightarrow> string" where
  "decode_refs [] = []"
| "decode_refs (c # cs) =
     (if c = CHR ''&'' \<and> startswith cs ''lt;'' then CHR ''<'' # decode_refs (drop 3 cs)
      else if c = CHR ''&'' \<and> startswith cs ''gt;'' then CHR ''>'' # decode_refs (drop 3 cs)
      else if c = CHR ''&'' \<and> startswith cs ''amp;'' then CHR ''&'' # decode_refs (drop 4 cs)
      else c # decode_refs cs)"

definition markup_text :: "string \<Rightarrow> string" where
  "markup_text content = decode_refs (strip_tags False content)"

definition example_soup :: "string \<Rightarrow> error + string" where
  "example_soup content =
     (if content = ''<![foo['' then Inl ParserRejectedMarkup else Inr (markup_text content))"

definition example_web :: "string \<Rightarrow> error + string" where
  "example_web url =
     (if url = ''https://example.com''
      then Inr ''<html><body><h1>Example Domain</h1><p>More information...</p></body></html>''
      else if url = ''https://example.com/blank'' then Inr ''<html><body><p> </p></body></html>''
      else if url = ''https://example.com/empty'' then Inr []
      else if url = ''https://example.com/rejected'' then Inr ''<![foo[''
      else if url = ''https://example.com/escaped'' then Inr ''&lt;b&gt;x&lt;/b&gt;''
      else Inl RequestError)"

definition example_env :: "string \<Rightarrow> env" where
  \<comment> \<open>The argument is the completion the model gives.\<close>
  "example_env completion =
     \<lparr>requests_get = example_web,
      soup_text = example_soup,
      generate = (\<lambda>prompt. Inr completion),
      loads = json_loads,
      dumps = json_dumps,
      dumps_indent2 = json_dumps_indent 2,
      frame_to_csv = (\<lambda>v. Inl FrameError)\<rparr>"

section \<open>The decoder consumes its input\<close>

text \<open>
  Every successful scan returns a strictly shorter rest, so the length tests in
  \<open>array_items\<close> and \<open>object_pairs\<close> always pass: the two functions satisfy the
  equations of the library's loops, without the tests.
\<close>

lemma scanstring_shorter: "scanstring s = Some (str, r) \<Longrightarrow> length r < length s"
proof (induction "length s" arbitrary: s str r rule: less_induct)
  case less
  show ?case
  proof (cases s)
    case Nil
    with less.prems show ?thesis by simp
  next
    case (Cons c cs)
    have "r = cs \<or> (\<exists>s' str'. scanstring s' = Some (str', r) \<and> length s' < length s)"
      using less.prems unfolding Cons
      by (fastforce split: if_splits list.splits option.splits prod.splits)
    then show ?thesis
    proof
      assume "r = cs"
      with Cons show ?thesis by simp
    next
      assume "\<exists>s' str'. scanstring s' = Some (str', r) \<and> length s' < length s"
      then obtain s' str' where s': "scanstring s' = Some (str', r)" "length s' < length s"
        by blast
      from less.hyps [OF s'(2) s'(1)] s'(2) show ?thesis
        by simp
    qed
  qed
qed

lemma match_int_shorter: "match_int s = Some (ds, r) \<Longrightarrow> length r < length s"
  using length_dropWhile_le [of is_digit "tl s"]
  by (cases s) (auto simp: match_int_def split: if_splits)

lemma scan_number_shorter: "scan_number s = Some (v, r) \<Longrightarrow> length r < length s"
proof -
  assume a: "scan_number s = Some (v, r)"
  then obtain ds where "match_int s = Some (ds, r) \<or> match_int (tl s) = Some (ds, r)"
    by (auto simp: scan_number_def Let_def split: option.splits if_splits prod.splits)
  then show ?thesis
    using match_int_shorter [of s ds r] match_int_shorter [of "tl s" ds r]
    by (cases s) auto
qed

lemma skip_ws_shorter: "length (skip_ws s) \<le> length s"
  by (simp add: skip_ws_def length_dropWhile_le)

lemma skip_ws_Cons_shorter: "skip_ws s = c # r \<Longrightarrow> length r < length s"
  using skip_ws_shorter [of s] by simp

lemma startswith_length: "startswith s p \<Longrightarrow> length p \<le> length s"
  by (metis startswith_def length_take min.cobounded1 min.commute)

lemma scan_shorter:
  "scan_once s = Some (v, r) \<Longrightarrow> length r < length s"
  "array_items s' = Some (vs, r') \<Longrightarrow> length r' < length s'"
  "object_pairs s'' = Some (ps, r'') \<Longrightarrow> length r'' < length s''"
proof (induction s and s' and s'' arbitrary: v r and vs r' and ps r''
    rule: scan_once_array_items_object_pairs.induct)
  case (1 s)
  show ?case
  proof (cases s)
    case Nil
    with "1.prems" show ?thesis by (simp add: scan_once.simps)
  next
    case (Cons c t)
    consider (str) "c = CHR 0x22" | (obj) "c \<noteq> CHR 0x22" "c = CHR ''{''"
      | (arr) "c \<noteq> CHR 0x22" "c \<noteq> CHR ''{''" "c = CHR ''[''"
      | (other) "c \<noteq> CHR 0x22" "c \<noteq> CHR ''{''" "c \<noteq> CHR ''[''"
      by blast
    then show ?thesis
    proof cases
      case str
      with "1.prems" Cons obtain x where "scanstring t = Some (x, r)"
        by (auto simp: scan_once.simps)
      from scanstring_shorter [OF this] Cons show ?thesis by simp
    next
      case obj
      show ?thesis
      proof (cases "skip_ws t")
        case Nil
        with "1.prems" Cons obj show ?thesis by (simp add: scan_once.simps)
      next
        case inner: (Cons c' t')
        show ?thesis
        proof (cases "c' = CHR ''}''")
          case True
          with "1.prems" Cons obj inner have "r = t'"
            by (simp add: scan_once.simps)
          with skip_ws_Cons_shorter [OF inner] Cons show ?thesis by simp
        next
          case False
          with "1.prems" Cons obj inner obtain pairs where "object_pairs (c' # t') = Some (pairs, r)"
            by (auto simp: scan_once.simps)
          from "1.IH"(1) [OF Cons obj(1) obj(2) inner False this]
            skip_ws_shorter [of t] inner Cons
          show ?thesis by simp
        qed
      qed
    next
      case arr
      show ?thesis
      proof (cases "skip_ws t")
        case Nil
        with "1.prems" Cons arr show ?thesis by (simp add: scan_once.simps)
      next
        case inner: (Cons c' t')
        show ?thesis
        proof (cases "c' = CHR '']''")
          case True
          with "1.prems" Cons arr inner have "r = t'"
            by (simp add: scan_once.simps)
          with skip_ws_Cons_shorter [OF inner] Cons show ?thesis by simp
        next
          case False
          with "1.prems" Cons arr inner obtain elems where "array_items (c' # t') = Some (elems, r)"
            by (auto simp: scan_once.simps)
          from "1.IH"(2) [OF Cons arr(1) arr(2) arr(3) inner False this]
            skip_ws_shorter [of t] inner Cons
          show ?thesis by simp
        qed
      qed
    next
      case other
      from "1.prems" have "scan_once (c # t) = Some (v, r)"
        by (simp add: Cons)
      then have "(startswith s ''null'' \<and> r = drop 4 s) \<or> (startswith s ''true'' \<and> r = drop 4 s)
          \<or> (startswith s ''false'' \<and> r = drop 5 s) \<or> scan_number s = Some (v, r)"
        using other by (subst (asm) scan_once.simps) (auto simp: Cons split: if_splits)
      then show ?thesis
        using startswith_length [of s "''null''"] startswith_length [of s "''true''"]
          startswith_length [of s "''false''"] scan_number_shorter [of s v r]
        by auto
    qed
  qed
next
  case (2 s)
  from "2.prems" obtain v r0 where first: "scan_once s = Some (v, r0)"
    by (subst (asm) array_items.simps) (auto split: option.splits)
  have r0: "length r0 < length s"
    by (rule "2.IH"(1) [OF first])
  from "2.prems" first obtain c t where rest: "skip_ws r0 = c # t"
    by (subst (asm) array_items.simps) (auto split: list.splits)
  have t: "length t < length s"
    using skip_ws_Cons_shorter [OF rest] r0 by simp
  show ?case
  proof (cases "c = CHR '']''")
    case True
    with "2.prems" first rest have "r' = t"
      by (subst (asm) array_items.simps) simp
    with t show ?thesis by simp
  next
    case False
    with "2.prems" first rest t have comma: "c = CHR '',''"
      and "\<exists>elems. array_items (skip_ws t) = Some (elems, r')"
      by (subst (asm) array_items.simps, auto split: if_splits)+
    then obtain elems where more: "array_items (skip_ws t) = Some (elems, r')"
      by blast
    have "c = CHR '','' \<and> length t < length s"
      using comma t by simp
    from "2.IH"(2) [OF first refl rest False this more] skip_ws_shorter [of t] t
    show ?thesis by simp
  qed
next
  case (3 s)
  from "3.prems" obtain q t where s: "s = q # t"
    by (subst (asm) object_pairs.simps) (auto split: list.splits)
  from "3.prems" s have q: "q = CHR 0x22"
    by (subst (asm) object_pairs.simps) (auto split: if_splits)
  from "3.prems" s q obtain key r1 where key: "scanstring t = Some (key, r1)"
    by (subst (asm) object_pairs.simps) (auto split: option.splits)
  from "3.prems" s q key obtain c r2 where colon: "skip_ws r1 = c # r2"
    by (subst (asm) object_pairs.simps) (auto split: list.splits)
  from "3.prems" s q key colon have guard: "\<not> (c \<noteq> CHR '':'' \<or> \<not> length r2 < length s)"
    by (subst (asm) object_pairs.simps) (auto split: if_splits)
  from "3.prems" s q key colon guard obtain v r3 where val: "scan_once (skip_ws r2) = Some (v, r3)"
    by (subst (asm) object_pairs.simps) (auto split: option.splits)
  have r3: "length r3 < length s"
    using "3.IH"(1) [OF s _ key refl colon guard val] q guard skip_ws_shorter [of r2] by simp
  from "3.prems" s q key colon guard val obtain c' r4 where after: "skip_ws r3 = c' # r4"
    by (subst (asm) object_pairs.simps) (auto split: list.splits)
  have r4: "length r4 < length s"
    using skip_ws_Cons_shorter [OF after] r3 by simp
  show ?case
  proof (cases "c' = CHR ''}''")
    case True
    with "3.prems" s q key colon guard val after have "r'' = r4"
      by (subst (asm) object_pairs.simps) simp
    with r4 show ?thesis by simp
  next
    case False
    with "3.prems" s q key colon guard val after r4 have comma: "c' = CHR '',''"
      and "\<exists>pairs. object_pairs (skip_ws r4) = Some (pairs, r'')"
      by (subst (asm) object_pairs.simps, auto split: if_splits)+
    then obtain pairs where more: "object_pairs (skip_ws r4) = Some (pairs, r'')"
      by blast
    have "c' = CHR '','' \<and> length r4 < length s"
      using comma r4 by simp
    from "3.IH"(2) [OF s _ key refl colon guard val refl after False this more] q
      skip_ws_shorter [of r4] r4
    show ?thesis by simp
  qed
qed

lemma array_items_unguarded:
  "array_items s =
     (case scan_once s of
        None \<Rightarrow> None
      | Some (v, r) \<Rightarrow>
          (case skip_ws r of
             [] \<Rightarrow> None
           | c # r' \<Rightarrow>
               (if c = CHR '']'' then Some ([v], r')
                else if c = CHR '',''
                then map_option (\<lambda>(elems, r''). (v # elems, r'')) (array_items (skip_ws r'))
                else None)))"
proof (cases "scan_once s")
  case None
  then show ?thesis
    by (subst array_items.simps) simp
next
  case (Some p)
  obtain v r where p: "p = (v, r)" by (cases p)
  have "length r' < length s" if "skip_ws r = c # r'" for c r'
    using scan_shorter(1) [of s v r] skip_ws_Cons_shorter [OF that] Some p by simp
  then show ?thesis
    by (subst array_items.simps) (simp add: Some p split: list.splits)
qed

lemma object_pairs_unguarded:
  "object_pairs s =
     (case s of
        [] \<Rightarrow> None
      | q # r \<Rightarrow>
          (if q \<noteq> CHR 0x22 then None
           else (case scanstring r of
                   None \<Rightarrow> None
                 | Some (key, r1) \<Rightarrow>
                     (case skip_ws r1 of
                        [] \<Rightarrow> None
                      | c # r2 \<Rightarrow>
                          (if c \<noteq> CHR '':'' then None
                           else (case scan_once (skip_ws r2) of
                                   None \<Rightarrow> None
                                 | Some (v, r3) \<Rightarrow>
                                     (case skip_ws r3 of
                                        [] \<Rightarrow> None
                                      | c' # r4 \<Rightarrow>
                                          (if c' = CHR ''}'' then Some ([(key, v)], r4)
                                           else if c' = CHR '',''
                                           then map_option (\<lambda>(pairs, r5). ((key, v) # pairs, r5))
                                                  (object_pairs (skip_ws r4))
                                           else None))))))))"
proof (cases s)
  case Nil
  then show ?thesis
    by (subst object_pairs.simps) simp
next
  case s: (Cons q r)
  show ?thesis
  proof (cases "scanstring r")
    case None
    then show ?thesis
      by (subst object_pairs.simps) (simp add: s)
  next
    case (Some p)
    obtain key r1 where key: "scanstring r = Some (key, r1)"
      using Some by (cases p) simp
    show ?thesis
    proof (cases "skip_ws r1")
      case Nil
      then show ?thesis
        by (subst object_pairs.simps) (simp add: s key)
    next
      case colon: (Cons c r2)
      have g1: "length r2 < length s"
        using scanstring_shorter [OF key] skip_ws_Cons_shorter [OF colon] s by simp
      show ?thesis
      proof (cases "scan_once (skip_ws r2)")
        case None
        then show ?thesis
          by (subst object_pairs.simps) (simp add: s key colon)
      next
        case (Some p')
        obtain v r3 where val: "scan_once (skip_ws r2) = Some (v, r3)"
          using Some by (cases p') simp
        show ?thesis
        proof (cases "skip_ws r3")
          case Nil
          then show ?thesis
            by (subst object_pairs.simps) (simp add: s key colon val)
        next
          case after: (Cons c' r4)
          have g2: "length r4 < length s"
            using g1 scan_shorter(1) [OF val] skip_ws_shorter [of r2]
              skip_ws_Cons_shorter [OF after]
            by simp
          show ?thesis
            using g1 g2 by (subst object_pairs.simps) (simp add: s key colon val after)
        qed
      qed
    qed
  qed
qed

section \<open>The decoder inverts the encoder\<close>

subsection \<open>Strings\<close>

lemma hex_value_hex_char: "d < 16 \<Longrightarrow> hex_value (hex_char d) = Some d"
  by (auto simp: hex_value_def hex_char_def Let_def)

lemma of_char_div_16: "(of_char c :: nat) div 16 < 16"
  by (rule less_mult_imp_div_less) simp

lemma hex_value_0: "hex_value CHR ''0'' = Some 0"
  by (simp add: hex_value_def)

lemma scanstring_escape_char:
  "scanstring (escape_char c @ t) = map_option (\<lambda>(str, r). (c # str, r)) (scanstring t)"
proof -
  let ?n = "of_char c :: nat"
  consider (quote) "c = CHR 0x22" | (bslash) "c = CHR 0x5C" | (nl) "c = CHR 0x0A"
    | (cr) "c = CHR 0x0D" | (tab) "c = CHR 0x09" | (bs) "c = CHR 0x08" | (ff) "c = CHR 0x0C"
    | (plain) "c \<notin> {CHR 0x22, CHR 0x5C, CHR 0x0A, CHR 0x0D, CHR 0x09, CHR 0x08, CHR 0x0C}" "32 \<le> ?n \<and> ?n \<le> 126"
    | (other) "c \<notin> {CHR 0x22, CHR 0x5C, CHR 0x0A, CHR 0x0D, CHR 0x09, CHR 0x08, CHR 0x0C}" "\<not> (32 \<le> ?n \<and> ?n \<le> 126)"
    by blast
  then show ?thesis
  proof cases
    case plain
    then show ?thesis by (simp add: escape_char_def Let_def)
  next
    case other
    then show ?thesis
      by (simp add: escape_char_def Let_def hex_value_hex_char hex_value_0 of_char_div_16)
  qed (simp_all add: escape_char_def unescape_def Let_def)
qed

lemma scanstring_escaped:
  "scanstring (concat (map escape_char s) @ CHR 0x22 # rest) = Some (s, rest)"
proof (induction s)
  case Nil
  show ?case by simp
next
  case (Cons c s)
  show ?case
    using Cons.IH by (simp add: scanstring_escape_char del: scanstring.simps)
qed

subsection \<open>Integers\<close>


lemma of_char_digit: "d < 10 \<Longrightarrow> of_char (char_of (48 + d :: nat)) = (48 + d :: nat)"
  by simp

lemma is_digit_char_of: "d < 10 \<Longrightarrow> is_digit (char_of (48 + d :: nat))"
  by (simp add: is_digit_def)

lemma char_of_48: "char_of (48 :: nat) = CHR ''0''"
  by (simp add: char_of_eq_iff)

lemma char_of_digit_zero: "d < 10 \<Longrightarrow> char_of (48 + d :: nat) = CHR ''0'' \<longleftrightarrow> d = 0"
proof
  assume d: "d < 10" and eq: "char_of (48 + d :: nat) = CHR ''0''"
  have "(of_char (char_of (48 + d :: nat)) :: nat) = of_char CHR ''0''"
    using eq by simp
  with d show "d = 0"
    by (simp only: of_char_digit) simp
next
  assume "d = 0"
  then show "char_of (48 + d :: nat) = CHR ''0''"
    by (simp add: char_of_48)
qed

lemma show_nat_digits: "c \<in> set (show_nat n) \<Longrightarrow> is_digit c"
proof (induction n rule: show_nat.induct)
  case (1 n)
  show ?case
  proof (cases "n < 10")
    case True
    with "1.prems" show ?thesis
      by (simp add: show_nat.simps [of n] is_digit_char_of)
  next
    case False
    with "1.prems" "1.IH" show ?thesis
      by (auto simp: show_nat.simps [of n] is_digit_char_of)
  qed
qed

lemma show_nat_nonempty: "show_nat n \<noteq> []"
  by (subst show_nat.simps) simp

lemma hd_show_nat: "n \<noteq> 0 \<Longrightarrow> hd (show_nat n) \<noteq> CHR ''0''"
proof (induction n rule: show_nat.induct)
  case (1 n)
  show ?case
  proof (cases "n < 10")
    case True
    with "1.prems" show ?thesis
      by (simp add: show_nat.simps [of n] char_of_digit_zero)
  next
    case False
    then have "n div 10 \<noteq> 0" by simp
    with False "1.IH" show ?thesis
      by (simp add: show_nat.simps [of n] show_nat_nonempty)
  qed
qed

lemma nat_of_digits_snoc:
  "nat_of_digits (ds @ [c]) = 10 * nat_of_digits ds + (of_char c - 48)"
  by (simp add: nat_of_digits_def)

lemma nat_of_digits_show_nat: "nat_of_digits (show_nat n) = n"
proof (induction n rule: show_nat.induct)
  case (1 n)
  show ?case
  proof (cases "n < 10")
    case True
    then show ?thesis
      by (simp add: show_nat.simps [of n] nat_of_digits_def)
  next
    case False
    have "(48 + n mod 10) mod 256 = 48 + n mod 10"
      by (rule mod_less) simp
    with False "1.IH" show ?thesis
      by (simp add: show_nat.simps [of n] nat_of_digits_snoc)
  qed
qed

lemma delimited_no_digit: "delimited rest \<Longrightarrow> takeWhile is_digit rest = [] \<and> dropWhile is_digit rest = rest"
  by (cases rest) (simp_all add: delimited_def)

lemma match_int_show_nat:
  assumes "delimited rest"
  shows "match_int (show_nat n @ rest) = Some (show_nat n, rest)"
proof (cases "n = 0")
  case True
  then show ?thesis
    by (simp add: show_nat.simps [of 0] match_int_def char_of_48)
next
  case False
  obtain c cs where cs: "show_nat n = c # cs"
    using show_nat_nonempty [of n] by (cases "show_nat n") auto
  have digits: "\<forall>x \<in> set (show_nat n). is_digit x"
    using show_nat_digits by blast
  have "c \<noteq> CHR ''0''"
    using hd_show_nat [OF False] cs by simp
  moreover have "is_digit c"
    using digits cs by simp
  moreover have "takeWhile is_digit (show_nat n @ rest) = show_nat n"
    using digits delimited_no_digit [OF assms] by (simp add: takeWhile_append2)
  moreover have "dropWhile is_digit (show_nat n @ rest) = rest"
    using digits delimited_no_digit [OF assms] by (simp add: dropWhile_append2)
  ultimately show ?thesis
    using cs by (simp add: match_int_def)
qed

lemma delimited_no_float: "delimited rest \<Longrightarrow> \<not> match_frac rest \<and> \<not> match_exp rest"
  by (auto simp: delimited_def match_frac_def match_exp_def split: list.splits)

lemma hd_show_nat_digit: "is_digit (hd (show_nat n))"
  using show_nat_digits [of "hd (show_nat n)" n] show_nat_nonempty [of n] by simp

lemma scan_number_show_int:
  assumes "delimited rest"
  shows "scan_number (show_int i @ rest) = Some (JInt i, rest)"
proof (cases "i < 0")
  case True
  then show ?thesis
    using match_int_show_nat [OF assms, of "nat (- i)"] delimited_no_float [OF assms]
    by (simp add: scan_number_def show_int_def nat_of_digits_show_nat)
next
  case False
  obtain c cs where cs: "show_nat (nat i) = c # cs"
    using show_nat_nonempty [of "nat i"] by (cases "show_nat (nat i)") auto
  have "is_digit c"
    using hd_show_nat_digit [of "nat i"] cs by simp
  then have "c \<noteq> CHR ''-''"
    by (auto simp: is_digit_def)
  with False cs show ?thesis
    using match_int_show_nat [OF assms, of "nat i"] delimited_no_float [OF assms]
      nat_of_digits_show_nat [of "nat i"]
    by (simp add: scan_number_def show_int_def)
qed

subsection \<open>White space and first characters\<close>


lemma join_Cons: "xs \<noteq> [] \<Longrightarrow> join sep (x # xs) = x @ sep @ join sep xs"
  by (cases xs) simp_all

lemma skip_ws_append:
  "\<forall>c \<in> set w. is_json_ws c \<Longrightarrow> \<not> is_json_ws c \<Longrightarrow> skip_ws (w @ c # r) = c # r"
  by (simp add: skip_ws_def dropWhile_append2)

lemma skip_ws_Cons: "\<not> is_json_ws c \<Longrightarrow> skip_ws (c # r) = c # r"
  by (simp add: skip_ws_def)

lemma newline_indent_ws: "c \<in> set (newline_indent indent level) \<Longrightarrow> is_json_ws c"
  by (auto simp: newline_indent_def is_json_ws_def split: option.splits)

lemma item_separator_form:
  "\<exists>w. item_separator indent @ newline_indent indent level = CHR '','' # w \<and> (\<forall>c \<in> set w. is_json_ws c)"
  by (cases indent) (auto simp: item_separator_def newline_indent_def is_json_ws_def)

lemma show_int_hd: "\<exists>c cs. show_int i = c # cs \<and> (c = CHR ''-'' \<or> is_digit c)"
proof (cases "i < 0")
  case True
  then show ?thesis by (simp add: show_int_def)
next
  case False
  obtain d ds where d: "show_nat (nat i) = d # ds"
    using show_nat_nonempty [of "nat i"] by (cases "show_nat (nat i)") auto
  have "is_digit d"
    using hd_show_nat_digit [of "nat i"] d by simp
  with False d show ?thesis by (simp add: show_int_def)
qed

lemma show_int_start: "\<exists>c cs. show_int i = c # cs \<and> value_start c"
proof -
  obtain c cs where c: "show_int i = c # cs" and "c = CHR ''-'' \<or> is_digit c"
    using show_int_hd by blast
  then have "value_start c"
    by (auto simp: value_start_def is_digit_def is_json_ws_def)
  with c show ?thesis by blast
qed

lemma iterencode_start: "\<exists>c cs. iterencode indent level v = c # cs \<and> value_start c"
proof (cases v)
  case (JInt i)
  then show ?thesis using show_int_start [of i] by simp
qed (auto simp: value_start_def is_json_ws_def encode_basestring_ascii_def)

lemma delimited_comma: "delimited (CHR '','' # r)"
  by (simp add: delimited_def is_digit_def)

lemma delimited_close: "delimited (newline_indent indent level @ CHR '']'' # r)"
  "delimited (newline_indent indent level @ CHR ''}'' # r)"
  by (cases indent; simp add: delimited_def newline_indent_def is_digit_def)+

lemma skip_ws_close: "skip_ws (newline_indent indent level @ CHR '']'' # r) = CHR '']'' # r"
  "skip_ws (newline_indent indent level @ CHR ''}'' # r) = CHR ''}'' # r"
  by (rule skip_ws_append; auto dest: newline_indent_ws simp: is_json_ws_def)+

lemma scan_once_literals:
  "scan_once (''null'' @ rest) = Some (JNull, rest)"
  "scan_once (''true'' @ rest) = Some (JBool True, rest)"
  "scan_once (''false'' @ rest) = Some (JBool False, rest)"
  by (simp_all add: scan_once.simps startswith_def)

lemma scan_once_string:
  "scan_once (encode_basestring_ascii s @ rest) = Some (JStr s, rest)"
  by (simp add: scan_once.simps encode_basestring_ascii_def scanstring_escaped)

lemma scan_once_int:
  assumes "delimited rest"
  shows "scan_once (show_int i @ rest) = Some (JInt i, rest)"
proof -
  obtain c cs where c: "show_int i = c # cs" and "c = CHR ''-'' \<or> is_digit c"
    using show_int_hd by blast
  then have "c \<noteq> CHR 0x22" "c \<noteq> CHR ''{''" "c \<noteq> CHR ''[''" "c \<noteq> CHR ''n''" "c \<noteq> CHR ''t''" "c \<noteq> CHR ''f''"
    by (auto simp: is_digit_def)
  then have "scan_once (show_int i @ rest) = scan_number (show_int i @ rest)"
    using c by (simp add: scan_once.simps startswith_def)
  then show ?thesis
    by (simp add: scan_number_show_int [OF assms])
qed

lemma scan_once_empty_array:
  "skip_ws r = CHR '']'' # r' \<Longrightarrow> scan_once (CHR ''['' # r) = Some (JArr [], r')"
  by (subst scan_once.simps) simp

lemma scan_once_array:
  "skip_ws r = c # r' \<Longrightarrow> c \<noteq> CHR '']'' \<Longrightarrow> array_items (c # r') = Some (values, rest)
     \<Longrightarrow> scan_once (CHR ''['' # r) = Some (JArr values, rest)"
  by (subst scan_once.simps) simp

lemma scan_once_empty_object:
  "skip_ws r = CHR ''}'' # r' \<Longrightarrow> scan_once (CHR ''{'' # r) = Some (JObj [], r')"
  by (subst scan_once.simps) simp

lemma scan_once_object:
  "skip_ws r = c # r' \<Longrightarrow> c \<noteq> CHR ''}'' \<Longrightarrow> object_pairs (c # r') = Some (pairs, rest)
     \<Longrightarrow> scan_once (CHR ''{'' # r) = Some (JObj (dict pairs), rest)"
  by (subst scan_once.simps) simp

lemma array_items_last:
  "scan_once s = Some (v, r) \<Longrightarrow> skip_ws r = CHR '']'' # r'
     \<Longrightarrow> array_items s = Some ([v], r')"
  by (subst array_items.simps) simp

lemma array_items_more:
  "scan_once s = Some (v, r) \<Longrightarrow> skip_ws r = CHR '','' # r' \<Longrightarrow> length r' < length s
     \<Longrightarrow> array_items (skip_ws r') = Some (values, rest)
     \<Longrightarrow> array_items s = Some (v # values, rest)"
  by (subst array_items.simps) simp

lemma object_pairs_last:
  "scanstring r = Some (key, r1) \<Longrightarrow> skip_ws r1 = CHR '':'' # r2 \<Longrightarrow> length r2 < Suc (length r)
     \<Longrightarrow> scan_once (skip_ws r2) = Some (v, r3) \<Longrightarrow> skip_ws r3 = CHR ''}'' # r4
     \<Longrightarrow> object_pairs (CHR 0x22 # r) = Some ([(key, v)], r4)"
  by (subst object_pairs.simps) simp

lemma object_pairs_more:
  "scanstring r = Some (key, r1) \<Longrightarrow> skip_ws r1 = CHR '':'' # r2 \<Longrightarrow> length r2 < Suc (length r)
     \<Longrightarrow> scan_once (skip_ws r2) = Some (v, r3) \<Longrightarrow> skip_ws r3 = CHR '','' # r4
     \<Longrightarrow> length r4 < Suc (length r) \<Longrightarrow> object_pairs (skip_ws r4) = Some (pairs, rest)
     \<Longrightarrow> object_pairs (CHR 0x22 # r) = Some ((key, v) # pairs, rest)"
  by (subst object_pairs.simps) simp

lemma skip_ws_comma: "skip_ws (CHR '','' # r) = CHR '','' # r"
  by (simp add: skip_ws_Cons is_json_ws_def)

lemma skip_ws_colon: "skip_ws (CHR '':'' # r) = CHR '':'' # r"
  by (simp add: skip_ws_Cons is_json_ws_def)

lemma array_items_encoded:
  assumes elems: "\<And>x level rest. x \<in> set xs \<Longrightarrow> delimited rest \<Longrightarrow>
             scan_once (iterencode indent level x @ rest) = Some (x, rest)"
    and "xs \<noteq> []"
  shows "array_items
           (join (item_separator indent @ newline_indent indent l1) (map (iterencode indent l1) xs)
              @ newline_indent indent l0 @ CHR '']'' # rest)
         = Some (xs, rest)"
  using assms(2) elems
proof (induction xs rule: list_nonempty_induct)
  case (single x)
  have "scan_once (iterencode indent l1 x @ newline_indent indent l0 @ CHR '']'' # rest)
          = Some (x, newline_indent indent l0 @ CHR '']'' # rest)"
    by (rule single) (simp_all add: delimited_close)
  from array_items_last [OF this skip_ws_close(1)] show ?case
    by simp
next
  case (cons x xs)
  obtain w where w: "item_separator indent @ newline_indent indent l1 = CHR '','' # w"
    and ws: "\<forall>c \<in> set w. is_json_ws c"
    using item_separator_form by blast
  let ?tail = "join (item_separator indent @ newline_indent indent l1) (map (iterencode indent l1) xs)
                 @ newline_indent indent l0 @ CHR '']'' # rest"
  obtain y ys where xs: "xs = y # ys"
    using cons.hyps(1) by (cases xs) auto
  obtain c cs where c: "iterencode indent l1 y = c # cs" and vs: "value_start c"
    using iterencode_start by blast
  obtain t where tail: "?tail = c # t"
    using c xs by (cases ys) simp_all
  have ih: "array_items ?tail = Some (xs, rest)"
    by (rule cons.IH) (simp_all add: cons.prems)
  have whole: "join (item_separator indent @ newline_indent indent l1) (map (iterencode indent l1) (x # xs))
                 @ newline_indent indent l0 @ CHR '']'' # rest
               = iterencode indent l1 x @ CHR '','' # w @ ?tail"
    using cons.hyps(1) w by (simp add: join_Cons)
  have first: "scan_once (iterencode indent l1 x @ CHR '','' # w @ ?tail) = Some (x, CHR '','' # w @ ?tail)"
    by (rule cons.prems) (simp_all add: delimited_comma)
  have skip: "skip_ws (w @ ?tail) = ?tail"
    unfolding tail using ws vs by (intro skip_ws_append) (simp_all add: value_start_def)
  have shorter: "length (w @ ?tail) < length (iterencode indent l1 x @ CHR '','' # w @ ?tail)"
    by simp
  show ?case
    unfolding whole
    by (rule array_items_more [OF first skip_ws_comma shorter]) (simp only: skip ih)
qed

lemma skip_ws_space_value:
  "skip_ws (CHR '' '' # iterencode indent level v @ rest) = iterencode indent level v @ rest"
proof -
  obtain c cs where c: "iterencode indent level v = c # cs" and vs: "value_start c"
    using iterencode_start by blast
  show ?thesis
    using vs skip_ws_append [of "'' ''" c "cs @ rest"]
    by (simp add: c value_start_def is_json_ws_def)
qed

lemma object_pairs_encoded:
  assumes elems: "\<And>k x level rest. (k, x) \<in> set kvs \<Longrightarrow> delimited rest \<Longrightarrow>
             scan_once (iterencode indent level x @ rest) = Some (x, rest)"
    and "kvs \<noteq> []"
  shows "object_pairs
           (join (item_separator indent @ newline_indent indent l1)
                 (map (\<lambda>(k, v). encode_basestring_ascii k @ '': '' @ iterencode indent l1 v) kvs)
              @ newline_indent indent l0 @ CHR ''}'' # rest)
         = Some (kvs, rest)"
  using assms(2) elems
proof (induction kvs rule: list_nonempty_induct)
  case (single kv)
  obtain k v where kv: "kv = (k, v)" by (cases kv)
  let ?after = "newline_indent indent l0 @ CHR ''}'' # rest"
  let ?r = "concat (map escape_char k) @ CHR 0x22 # CHR '':'' # CHR '' '' # iterencode indent l1 v @ ?after"
  have key: "scanstring ?r = Some (k, CHR '':'' # CHR '' '' # iterencode indent l1 v @ ?after)"
    by (rule scanstring_escaped)
  have val: "scan_once (skip_ws (CHR '' '' # iterencode indent l1 v @ ?after)) = Some (v, ?after)"
    unfolding skip_ws_space_value by (rule single [of k]) (simp_all add: kv delimited_close)
  have shorter: "length (CHR '' '' # iterencode indent l1 v @ ?after) < Suc (length ?r)"
    by simp
  from object_pairs_last [OF key skip_ws_colon shorter val skip_ws_close(2)]
  show ?case
    by (simp add: kv encode_basestring_ascii_def)
next
  case (cons kv kvs)
  obtain k v where kv: "kv = (k, v)" by (cases kv)
  obtain w where w: "item_separator indent @ newline_indent indent l1 = CHR '','' # w"
    and ws: "\<forall>c \<in> set w. is_json_ws c"
    using item_separator_form by blast
  let ?enc = "\<lambda>(k, v). encode_basestring_ascii k @ '': '' @ iterencode indent l1 v"
  let ?tail = "join (item_separator indent @ newline_indent indent l1) (map ?enc kvs)
                 @ newline_indent indent l0 @ CHR ''}'' # rest"
  obtain kv' kvs' where kvs: "kvs = kv' # kvs'"
    using cons.hyps(1) by (cases kvs) auto
  obtain t where tail: "?tail = CHR 0x22 # t"
    using kvs by (cases kvs'; cases kv') (simp_all add: encode_basestring_ascii_def)
  have ih: "object_pairs ?tail = Some (kvs, rest)"
  proof (rule cons.IH)
    fix k' x level rest'
    assume "(k', x) \<in> set kvs" and "delimited rest'"
    then show "scan_once (iterencode indent level x @ rest') = Some (x, rest')"
      using cons.prems [of k' x rest' level] by simp
  qed
  let ?after = "CHR '','' # w @ ?tail"
  let ?r = "concat (map escape_char k) @ CHR 0x22 # CHR '':'' # CHR '' '' # iterencode indent l1 v @ ?after"
  have whole: "join (item_separator indent @ newline_indent indent l1) (map ?enc (kv # kvs))
                 @ newline_indent indent l0 @ CHR ''}'' # rest
               = CHR 0x22 # ?r"
    using cons.hyps(1) w by (simp add: join_Cons kv encode_basestring_ascii_def)
  have key: "scanstring ?r = Some (k, CHR '':'' # CHR '' '' # iterencode indent l1 v @ ?after)"
    by (rule scanstring_escaped)
  have val: "scan_once (skip_ws (CHR '' '' # iterencode indent l1 v @ ?after)) = Some (v, ?after)"
    unfolding skip_ws_space_value by (rule cons.prems [of k]) (simp_all add: kv delimited_comma)
  have shorter: "length (CHR '' '' # iterencode indent l1 v @ ?after) < Suc (length ?r)"
    by simp
  have shorter2: "length (w @ ?tail) < Suc (length ?r)"
    by simp
  have skip: "skip_ws (w @ ?tail) = ?tail"
    unfolding tail using ws by (intro skip_ws_append) (simp_all add: is_json_ws_def)
  have "object_pairs (CHR 0x22 # ?r) = Some ((k, v) # kvs, rest)"
    by (rule object_pairs_more [OF key skip_ws_colon shorter val skip_ws_comma shorter2])
       (simp only: skip ih)
  then show ?case
    unfolding whole by (simp only: kv)
qed

lemma dict_set_fresh: "k \<notin> fst ` set d \<Longrightarrow> dict_set k v d = d @ [(k, v)]"
  by (induction d) auto

lemma foldl_dict_set_distinct:
  "distinct (map fst (d @ pairs)) \<Longrightarrow> foldl (\<lambda>d (k, v). dict_set k v d) d pairs = d @ pairs"
proof (induction pairs arbitrary: d)
  case Nil
  show ?case by simp
next
  case (Cons p pairs)
  obtain k v where p: "p = (k, v)" by (cases p)
  have "dict_set k v d = d @ [(k, v)]"
    using Cons.prems by (intro dict_set_fresh) (auto simp: p)
  moreover have "distinct (map fst ((d @ [(k, v)]) @ pairs))"
    using Cons.prems by (simp add: p)
  ultimately show ?case
    using Cons.IH [of "d @ [(k, v)]"] by (simp add: p)
qed

lemma dict_distinct: "distinct (map fst pairs) \<Longrightarrow> dict pairs = pairs"
  using foldl_dict_set_distinct [of "[]" pairs] by (simp add: dict_def)

lemma scan_once_iterencode:
  "keys_unique v \<Longrightarrow> delimited rest \<Longrightarrow> scan_once (iterencode indent level v @ rest) = Some (v, rest)"
proof (induction v arbitrary: level rest)
  case JNull
  show ?case by (simp add: scan_once_literals [simplified])
next
  case (JBool b)
  show ?case by (cases b) (simp_all add: scan_once_literals [simplified])
next
  case (JInt i)
  then show ?case by (simp add: scan_once_int)
next
  case (JStr s)
  show ?case by (simp add: scan_once_string)
next
  case (JArr xs)
  show ?case
  proof (cases "xs = []")
    case True
    then show ?thesis
      using scan_once_empty_array [of "CHR '']'' # rest" rest]
      by (simp add: skip_ws_Cons is_json_ws_def)
  next
    case False
    let ?body = "join (item_separator indent @ newline_indent indent (level + 1))
                   (map (iterencode indent (level + 1)) xs)
                 @ newline_indent indent level @ CHR '']'' # rest"
    have items: "array_items ?body = Some (xs, rest)"
      using JArr.IH JArr.prems(1) False by (intro array_items_encoded) auto
    obtain y ys where xs: "xs = y # ys"
      using False by (cases xs) auto
    obtain c cs where c: "iterencode indent (level + 1) y = c # cs" and vs: "value_start c"
      using iterencode_start by blast
    obtain t where body: "?body = c # t"
      using c xs by (cases ys) simp_all
    have skip: "skip_ws (newline_indent indent (level + 1) @ ?body) = ?body"
      unfolding body using vs
      by (intro skip_ws_append) (auto dest: newline_indent_ws simp: value_start_def)
    have "c \<noteq> CHR '']''"
      using vs by (simp add: value_start_def)
    from scan_once_array [OF skip [unfolded body] this items [unfolded body]]
    have "scan_once (CHR ''['' # newline_indent indent (level + 1) @ ?body) = Some (JArr xs, rest)"
      by (simp only: body)
    with False show ?thesis by simp
  qed
next
  case (JObj kvs)
  show ?case
  proof (cases "kvs = []")
    case True
    then show ?thesis
      using scan_once_empty_object [of "CHR ''}'' # rest" rest]
      by (simp add: skip_ws_Cons is_json_ws_def)
  next
    case False
    let ?enc = "\<lambda>(k, v). encode_basestring_ascii k @ '': '' @ iterencode indent (level + 1) v"
    let ?body = "join (item_separator indent @ newline_indent indent (level + 1)) (map ?enc kvs)
                 @ newline_indent indent level @ CHR ''}'' # rest"
    have "\<And>k x level rest. (k, x) \<in> set kvs \<Longrightarrow> delimited rest \<Longrightarrow>
             scan_once (iterencode indent level x @ rest) = Some (x, rest)"
    proof -
      fix k x level rest
      assume mem: "(k, x) \<in> set kvs" and d: "delimited rest"
      have "keys_unique x" using JObj.prems(1) mem by auto
      moreover have "x \<in> Basic_BNFs.snds (k, x)" by simp
      ultimately show "scan_once (iterencode indent level x @ rest) = Some (x, rest)"
        using JObj.IH mem d by blast
    qed
    then have pairs: "object_pairs ?body = Some (kvs, rest)"
      using False by (intro object_pairs_encoded) auto
    obtain kv' kvs' where kvs: "kvs = kv' # kvs'"
      using False by (cases kvs) auto
    obtain t where body: "?body = CHR 0x22 # t"
      using kvs by (cases kvs'; cases kv') (simp_all add: encode_basestring_ascii_def)
    have skip: "skip_ws (newline_indent indent (level + 1) @ ?body) = ?body"
      unfolding body
      by (intro skip_ws_append) (auto dest: newline_indent_ws simp: is_json_ws_def)
    have "dict kvs = kvs"
      using JObj.prems(1) by (simp add: dict_distinct)
    moreover have "CHR 0x22 \<noteq> CHR ''}''"
      by simp
    from scan_once_object [OF skip [unfolded body] this pairs [unfolded body]]
    have "scan_once (CHR ''{'' # newline_indent indent (level + 1) @ ?body) = Some (JObj (dict kvs), rest)"
      by (simp only: body)
    ultimately have "scan_once (CHR ''{'' # newline_indent indent (level + 1) @ ?body) = Some (JObj kvs, rest)"
      by simp
    with False show ?thesis by simp
  qed
qed

lemma json_loads_iterencode:
  assumes "keys_unique v"
  shows "json_loads (iterencode indent level v) = Some v"
proof -
  obtain c cs where c: "iterencode indent level v = c # cs" and vs: "value_start c"
    using iterencode_start by blast
  have "skip_ws (iterencode indent level v) = iterencode indent level v"
    using vs by (simp add: c skip_ws_Cons value_start_def)
  moreover have "scan_once (iterencode indent level v @ []) = Some (v, [])"
    by (rule scan_once_iterencode [OF assms]) (simp add: delimited_def)
  ultimately show ?thesis
    by (simp add: json_loads_def skip_ws_def)
qed

section \<open>Flattening is idempotent\<close>

lemma is_linebreak_LF: "is_linebreak (CHR 0x0A)"
  by (simp add: is_linebreak_def)

lemma is_linebreak_CR: "is_linebreak (CHR 0x0D)"
  by (simp add: is_linebreak_def)

lemma splitlines_from_no_linebreak:
  "\<forall>x \<in> set cur. \<not> is_linebreak x \<Longrightarrow> l \<in> set (splitlines_from cur s) \<Longrightarrow> x \<in> set l
     \<Longrightarrow> \<not> is_linebreak x"
  by (induction cur s rule: splitlines_from.induct) (auto split: if_splits)

lemma splitlines_no_linebreak: "l \<in> set (splitlines s) \<Longrightarrow> x \<in> set l \<Longrightarrow> \<not> is_linebreak x"
  unfolding splitlines_def using splitlines_from_no_linebreak [of "[]" l s x] by simp

lemma set_strip: "set (strip s) \<subseteq> set s"
proof -
  have "set (dropWhile is_space (rev (dropWhile is_space s))) \<subseteq> set (rev (dropWhile is_space s))"
    by (rule set_dropWhileD [THEN subsetI])
  also have "\<dots> \<subseteq> set s"
    using set_dropWhileD [of _ is_space s] by auto
  finally show ?thesis
    by (simp add: strip_def)
qed

lemma strip_ends:
  assumes "strip s \<noteq> []"
  shows "\<not> is_space (hd (strip s)) \<and> \<not> is_space (last (strip s))"
proof -
  let ?x = "dropWhile is_space s"
  let ?y = "dropWhile is_space (rev ?x)"
  have y: "?y \<noteq> []"
    using assms by (simp add: strip_def)
  have x: "?x \<noteq> []"
  proof
    assume "?x = []"
    then have "?y = []" by (simp only: rev.simps dropWhile.simps)
    with y show False by simp
  qed
  have "\<not> is_space (hd ?y)"
    using y by (rule hd_dropWhile)
  moreover have "last ?y = last (rev ?x)"
    using y by (metis append_Nil2 last_appendR takeWhile_dropWhile_id)
  moreover have "\<not> is_space (hd ?x)"
    using x by (rule hd_dropWhile)
  ultimately show ?thesis
    using x y by (simp add: strip_def hd_rev last_rev)
qed

lemma strip_chunk:
  assumes "c \<noteq> []" and "\<not> is_space (hd c)" and "\<not> is_space (last c)"
  shows "strip c = c"
proof -
  have "dropWhile is_space c = c"
    using assms(1,2) by (cases c) simp_all
  moreover have "dropWhile is_space (rev c) = rev c"
    using assms(1,3) by (cases "rev c") (simp_all add: hd_rev [symmetric])
  ultimately show ?thesis
    by (simp add: strip_def)
qed

lemma split_nonempty: "split s sep \<noteq> []"
  by (induction s) (auto split: list.splits)

lemma split_pieces: "p \<in> set (split s sep) \<Longrightarrow> sep \<notin> set p \<and> set p \<subseteq> set s"
proof (induction s arbitrary: p)
  case Nil
  then show ?case by simp
next
  case (Cons c s)
  show ?case
  proof (cases "c = sep")
    case True
    with Cons show ?thesis by auto
  next
    case False
    obtain q qs where q: "split s sep = q # qs"
      using split_nonempty [of s sep] by (cases "split s sep") auto
    have first: "sep \<notin> set q \<and> set q \<subseteq> set s"
      using Cons.IH [of q] q by simp
    have others: "sep \<notin> set p' \<and> set p' \<subseteq> set s" if "p' \<in> set qs" for p'
      using Cons.IH [of p'] q that by simp
    from Cons.prems False q consider "p = c # q" | "p \<in> set qs"
      by auto
    then show ?thesis
    proof cases
      case 1
      with first False show ?thesis by auto
    next
      case 2
      with others [OF 2] show ?thesis by auto
    qed
  qed
qed

lemma split_without_sep: "sep \<notin> set s \<Longrightarrow> split s sep = [s]"
  by (induction s) auto

lemma splitlines_from_line:
  assumes "\<forall>x \<in> set l. \<not> is_linebreak x"
  shows "splitlines_from cur (l @ CHR 0x0A # rest) = (rev cur @ l) # splitlines_from [] rest"
  using assms
proof (induction l arbitrary: cur)
  case Nil
  show ?case
    by (cases rest) (simp_all add: is_linebreak_LF)
next
  case (Cons x l)
  have x: "\<not> is_linebreak x" "x \<noteq> CHR 0x0D"
    using Cons.prems is_linebreak_CR by auto
  obtain d ds where d: "l @ CHR 0x0A # rest = d # ds"
    by (cases l) auto
  have "splitlines_from cur (x # l @ CHR 0x0A # rest) = splitlines_from (x # cur) (l @ CHR 0x0A # rest)"
    unfolding d using x by simp
  also have "\<dots> = (rev (x # cur) @ l) # splitlines_from [] rest"
    using Cons.prems by (intro Cons.IH) simp
  finally show ?case
    by simp
qed

lemma splitlines_from_last:
  assumes "\<forall>x \<in> set l. \<not> is_linebreak x" and "l \<noteq> []"
  shows "splitlines_from cur l = [rev cur @ l]"
  using assms
proof (induction l arbitrary: cur)
  case Nil
  then show ?case by simp
next
  case (Cons x l)
  have x: "\<not> is_linebreak x" "x \<noteq> CHR 0x0D"
    using Cons.prems is_linebreak_CR by auto
  show ?case
  proof (cases l)
    case Nil
    with x show ?thesis by simp
  next
    case (Cons d ds)
    have "splitlines_from cur (x # l) = splitlines_from (x # cur) l"
      unfolding Cons using x by simp
    also have "\<dots> = [rev (x # cur) @ l]"
      using Cons.prems Cons by (intro Cons.IH) simp_all
    finally show ?thesis
      by simp
  qed
qed

lemma splitlines_join:
  assumes "\<forall>c \<in> set cs. c \<noteq> [] \<and> (\<forall>x \<in> set c. \<not> is_linebreak x)"
  shows "splitlines (join ''\<newline>'' cs) = cs"
  using assms
proof (induction cs)
  case Nil
  show ?case by (simp add: splitlines_def)
next
  case (Cons c cs)
  show ?case
  proof (cases cs)
    case Nil
    with Cons.prems show ?thesis
      by (simp add: splitlines_def splitlines_from_last)
  next
    case (Cons d ds)
    have "splitlines (join ''\<newline>'' (c # cs)) = splitlines_from [] (c @ CHR 0x0A # join ''\<newline>'' cs)"
      by (simp add: splitlines_def Cons)
    also have "\<dots> = c # splitlines_from [] (join ''\<newline>'' cs)"
      using Cons.prems by (simp add: splitlines_from_line)
    also have "splitlines_from [] (join ''\<newline>'' cs) = cs"
      using Cons.IH Cons.prems by (simp add: splitlines_def)
    finally show ?thesis .
  qed
qed

lemma flatten_text_chunks: "flatten_text text = join ''\<newline>'' (chunks text)"
  by (simp add: flatten_text_def chunks_def)

lemma chunks_are_chunks:
  assumes "c \<in> set (chunks text)"
  shows "chunk c"
proof -
  from assms obtain line piece where line: "line \<in> set (splitlines text)"
    and piece: "piece \<in> set (split (strip line) CHR '' '')"
    and c: "c = strip piece" "c \<noteq> []"
    by (auto simp: chunks_def)
  have "set c \<subseteq> set piece"
    unfolding c by (rule set_strip)
  also have "\<dots> \<subseteq> set (strip line)"
    using split_pieces [OF piece] by simp
  also have "\<dots> \<subseteq> set line"
    by (rule set_strip)
  finally have "\<forall>x \<in> set c. \<not> is_linebreak x"
    using splitlines_no_linebreak [OF line] by auto
  moreover have "CHR '' '' \<notin> set c"
    using split_pieces [OF piece] set_strip [of piece] c by auto
  moreover have "\<not> is_space (hd c) \<and> \<not> is_space (last c)"
    using strip_ends [of piece] c by simp
  ultimately show ?thesis
    using c by (auto simp: chunk_def)
qed

lemma chunks_join:
  assumes "\<forall>c \<in> set cs. chunk c"
  shows "chunks (join ''\<newline>'' cs) = cs"
proof -
  have lines: "splitlines (join ''\<newline>'' cs) = cs"
    using assms by (intro splitlines_join) (simp add: chunk_def)
  have "map strip cs = cs"
    using assms by (intro map_idI) (simp add: chunk_def strip_chunk)
  moreover have "concat (map (\<lambda>line. map strip (split line CHR '' '')) cs) = cs"
    using assms
  proof (induction cs)
    case Nil
    show ?case by simp
  next
    case (Cons c cs)
    have "chunk c"
      using Cons.prems by simp
    then have "CHR '' '' \<notin> set c" "strip c = c"
      by (auto simp: chunk_def strip_chunk)
    then have "split c CHR '' '' = [c]" "strip c = c"
      by (simp_all add: split_without_sep)
    with Cons show ?case
      by simp
  qed
  moreover have "filter (\<lambda>chunk. chunk \<noteq> []) cs = cs"
    using assms by (intro filter_True) (simp add: chunk_def)
  ultimately show ?thesis
    by (simp add: chunks_def lines)
qed

lemma flatten_text_idempotent: "flatten_text (flatten_text text) = flatten_text text"
  using chunks_join [of "chunks text"] chunks_are_chunks [of _ "text"]
  by (simp add: flatten_text_chunks)

section \<open>The example environment, evaluated\<close>

lemma example_fetch_missing:
  "fetch_content (example_env []) ''https://example.com/missing'' = Inl RequestError"
  by (simp add: fetch_content_def example_env_def example_web_def)

lemma example_page_text:
  "preprocess_content (example_env [])
     ''<html><body><h1>Example Domain</h1><p>More information...</p></body></html>''
   = Inr ''Example\<newline>DomainMore\<newline>information...''"
  by code_simp

lemma example_blank_text:
  "preprocess_content (example_env []) ''<html><body><p> </p></body></html>'' = Inr []"
  by code_simp

lemma example_rejected_text:
  "preprocess_content (example_env []) ''<![foo['' = Inl ParserRejectedMarkup"
  by code_simp

lemma example_fetch_rejected:
  "fetch_content (example_env []) ''https://example.com/rejected'' = Inr ''<![foo[''"
  by (simp add: fetch_content_def example_env_def example_web_def)

lemma example_fetch_blank:
  "requests_get (example_env []) ''https://example.com/blank'' = Inr ''<html><body><p> </p></body></html>''"
  by (simp add: example_env_def example_web_def)

lemma example_paragraph_text:
  "preprocess_content (example_env []) ''<p>a  b</p>'' = Inr ''a\<newline>b''"
  "soup_text (example_env []) ''a\<newline>b'' = Inr ''a\<newline>b''"
  "preprocess_content (example_env []) ''a\<newline>b'' = Inr ''a\<newline>b''"
  by code_simp+

lemma example_escaped_text:
  "preprocess_content (example_env []) ''&lt;b&gt;x&lt;/b&gt;'' = Inr ''<b>x</b>''"
  "preprocess_content (example_env []) ''<b>x</b>'' = Inr ''x''"
  by code_simp+

lemma lower_question: "lower ''What is the title?'' = ''what is the title?''"
  by (simp add: lower_def lower_char_def char_of_eq_iff)

lemma lower_json_question: "lower ''Give me the links as JSON'' = ''give me the links as json''"
  by code_simp

lemma json_loads_empty: "json_loads [] = None"
  by (simp add: json_loads_def skip_ws_def scan_once.simps)

lemma json_loads_empty_array: "json_loads ''[]'' = Some (JArr [])"
  using json_loads_iterencode [of "JArr []" None 0] by simp

lemma json_loads_not_json: "json_loads (CHR ''x'' # rest) = None"
  by (simp add: json_loads_def skip_ws_def is_json_ws_def scan_once.simps startswith_def
      scan_number_def match_int_def is_digit_def)

lemma example_rows_dumps:
  "json_dumps (JArr [JObj [(''name'', JStr ''x''), (''val'', JInt 1)],
                     JObj [(''name'', JStr ''y''), (''val'', JInt 2)]])
     = ''[{\"name\": \"x\", \"val\": 1}, {\"name\": \"y\", \"val\": 2}]''"
  "json_dumps_indent 2 (JArr [JObj [(''name'', JStr ''x''), (''val'', JInt 1)],
                              JObj [(''name'', JStr ''y''), (''val'', JInt 2)]])
     = ''[\<newline>  {\<newline>    \"name\": \"x\",\<newline>    \"val\": 1\<newline>  },\<newline>  {\<newline>    \"name\": \"y\",\<newline>    \"val\": 2\<newline>  }\<newline>]''"
  by code_simp+

lemma example_fetch_page:
  "fetch_content (example_env []) ''https://example.com''
     = Inr ''<html><body><h1>Example Domain</h1><p>More information...</p></body></html>''"
  by (simp add: fetch_content_def example_env_def example_web_def)

lemma example_fetch_empty:
  "requests_get (example_env []) ''https://example.com/empty'' = Inr []"
  by (simp add: example_env_def example_web_def)

section \<open>The response parser\<close>

lemma py_find_absent: "c \<notin> set s \<Longrightarrow> py_find s c = - 1"
  by (simp add: py_find_def)

lemma parse_response_no_open_bracket:
  "CHR ''['' \<notin> set response \<Longrightarrow> parse_response env response query = Inr no_json_message"
  by (simp add: parse_response_def py_find_absent)

text \<open>
  C1. A completion with no bracket pair should give the fixed "Could not extract JSON
  data" message. The source tests \<open>json_end != -1\<close> after adding one to the result of
  \<open>rfind\<close>, so the test never fails: a completion that has an opening bracket and no
  closing one is sliced to the empty string, which does not decode, and the reply is the
  "Invalid JSON data" message instead. The completion \<open>[\<close> shows it, whatever the query.
  (\<open>parse_response_no_open_bracket\<close> is the half of the claim that holds: without an
  opening bracket the fixed message is returned.)
\<close>

theorem parse_response_unclosed_bracket:
  "parse_response (with_json env) ''['' query = Inr ''Error: Invalid JSON data. Raw data: ...''
   \<and> parse_response (with_json env) ''['' query
       \<noteq> Inr ''Error: Could not extract JSON data from the model's response.''
   \<and> fst (process_query (example_env ''['')
              \<lparr>current_url = Some ''https://example.com'',
                 current_content = Some ''<p>Example Domain</p>'',
                 preprocessed_content = Some ''Example\<newline>Domain''\<rparr>
              ''List the links'')
       = Inr ''Error: Invalid JSON data. Raw data: ...''"
proof -
  have reply: "parse_response env' ''['' q = Inr ''Error: Invalid JSON data. Raw data: ...''"
    if "loads env' = json_loads" for env' q
    using that
    by (simp add: parse_response_def py_find_def py_rfind_def slice_def clamp_index_def
        json_loads_empty invalid_json_message_def)
  have "lower ''List the links'' = ''list the links''"
    by (simp add: lower_def lower_char_def char_of_eq_iff)
  then have "fst (process_query (example_env ''['')
              \<lparr>current_url = Some ''https://example.com'',
                 current_content = Some ''<p>Example Domain</p>'',
                 preprocessed_content = Some ''Example\<newline>Domain''\<rparr>
              ''List the links'')
       = parse_response (example_env ''['') ''['' ''List the links''"
    by (simp add: process_query_def startswith_def unset_def extract_info_def example_env_def)
  then show ?thesis
    using reply [of "with_json env" query] reply [of "example_env ''[''" "''List the links''"]
    by (simp add: with_json_def example_env_def)
qed

section \<open>Fetching\<close>

text \<open>
  C2, as amended. A fetch whose request and preprocessing both succeed sets the three
  session fields together and returns the acknowledgment. When the request fails the
  error propagates, and \<open>current_content\<close> and \<open>preprocessed_content\<close> keep their values;
  \<open>current_url\<close> does not: it was assigned before the request and names the requested
  URL. When the request succeeds and the preprocessing of the page raises, that error
  propagates with \<open>current_url\<close> and \<open>current_content\<close> set from this fetch and
  \<open>preprocessed_content\<close> left at its value before the call.
\<close>

theorem fetch_url_outcomes:
  "(\<forall>content text. fetch_content env url = Inr content \<longrightarrow>
      preprocess_content env content = Inr text \<longrightarrow>
      fetch_url env s url =
        (Inr (''I've fetched and preprocessed the content from '' @ url
                @ ''. What would you like to know about it?''),
         \<lparr>current_url = Some url, current_content = Some content,
            preprocessed_content = Some text\<rparr>))
   \<and> (\<forall>e. fetch_content env url = Inl e \<longrightarrow>
      fst (fetch_url env s url) = Inl e
      \<and> current_url (snd (fetch_url env s url)) = Some url
      \<and> current_content (snd (fetch_url env s url)) = current_content s
      \<and> preprocessed_content (snd (fetch_url env s url)) = preprocessed_content s)
   \<and> (\<forall>content e. fetch_content env url = Inr content \<longrightarrow>
      preprocess_content env content = Inl e \<longrightarrow>
      fst (fetch_url env s url) = Inl e
      \<and> current_url (snd (fetch_url env s url)) = Some url
      \<and> current_content (snd (fetch_url env s url)) = Some content
      \<and> preprocessed_content (snd (fetch_url env s url)) = preprocessed_content s)"
  by (cases s) (simp add: fetch_url_def fetched_message_def)

theorem fetch_url_outcomes_witness:
  "fetch_content (example_env []) ''https://example.com''
     = Inr ''<html><body><h1>Example Domain</h1><p>More information...</p></body></html>''
   \<and> preprocess_content (example_env [])
         ''<html><body><h1>Example Domain</h1><p>More information...</p></body></html>''
       = Inr ''Example\<newline>DomainMore\<newline>information...''
   \<and> fetch_url (example_env []) init ''https://example.com''
       = (Inr ''I've fetched and preprocessed the content from https://example.com. What would you like to know about it?'',
          \<lparr>current_url = Some ''https://example.com'',
             current_content =
               Some ''<html><body><h1>Example Domain</h1><p>More information...</p></body></html>'',
             preprocessed_content = Some ''Example\<newline>DomainMore\<newline>information...''\<rparr>)
   \<and> fetch_content (example_env []) ''https://example.com/missing'' = Inl RequestError
   \<and> fst (fetch_url (example_env []) init ''https://example.com/missing'') = Inl RequestError
   \<and> current_url (snd (fetch_url (example_env []) init ''https://example.com/missing''))
       = Some ''https://example.com/missing''
   \<and> current_content (snd (fetch_url (example_env []) init ''https://example.com/missing'')) = None
   \<and> preprocessed_content (snd (fetch_url (example_env []) init ''https://example.com/missing'')) = None
   \<and> fetch_content (example_env []) ''https://example.com/rejected'' = Inr ''<![foo[''
   \<and> preprocess_content (example_env []) ''<![foo['' = Inl ParserRejectedMarkup
   \<and> fst (fetch_url (example_env [])
              \<lparr>current_url = Some ''https://example.com'',
                 current_content = Some ''<p>Example Domain</p>'',
                 preprocessed_content = Some ''Example\<newline>Domain''\<rparr>
              ''https://example.com/rejected'')
       = Inl ParserRejectedMarkup
   \<and> snd (fetch_url (example_env [])
              \<lparr>current_url = Some ''https://example.com'',
                 current_content = Some ''<p>Example Domain</p>'',
                 preprocessed_content = Some ''Example\<newline>Domain''\<rparr>
              ''https://example.com/rejected'')
       = \<lparr>current_url = Some ''https://example.com/rejected'',
            current_content = Some ''<![foo['',
            preprocessed_content = Some ''Example\<newline>Domain''\<rparr>"
proof -
  let ?old = "\<lparr>current_url = Some ''https://example.com'',
                current_content = Some ''<p>Example Domain</p>'',
                preprocessed_content = Some ''Example\<newline>Domain''\<rparr>"
  note outcomes = fetch_url_outcomes [of "example_env []"]
  note fetched = conjunct1 [OF outcomes [of "''https://example.com''" init],
      rule_format, OF example_fetch_page example_page_text]
  note failed = conjunct1 [OF conjunct2 [OF outcomes [of "''https://example.com/missing''" init]],
      rule_format, OF example_fetch_missing]
  note rejected = conjunct2 [OF conjunct2 [OF outcomes [of "''https://example.com/rejected''" ?old]],
      rule_format, OF example_fetch_rejected example_rejected_text]
  have "snd (fetch_url (example_env []) ?old ''https://example.com/rejected'')
          = \<lparr>current_url = Some ''https://example.com/rejected'',
               current_content = Some ''<![foo['',
               preprocessed_content = Some ''Example\<newline>Domain''\<rparr>"
    using rejected
    by (cases "snd (fetch_url (example_env []) ?old ''https://example.com/rejected'')") simp
  with fetched failed rejected show ?thesis
    by (simp only: example_fetch_page example_fetch_missing example_fetch_rejected
        example_page_text example_rejected_text init_def append.simps simp_thms session.simps)
qed

text \<open>
  C2 as stated fails: after a failed fetch on a fresh extractor, \<open>current_url\<close> is no
  longer its value before the call.
\<close>

theorem fetch_url_failure_counterexample:
  "fst (fetch_url (example_env []) init ''https://example.com/missing'') = Inl RequestError
   \<and> current_url (snd (fetch_url (example_env []) init ''https://example.com/missing''))
       \<noteq> current_url init"
  by (simp add: fetch_url_def example_fetch_missing init_def)

section \<open>Preprocessing\<close>

text \<open>
  C4, as amended. The flattening of \<open>_preprocess_content\<close> (lines, chunks, join) is
  idempotent on every text. Preprocessing as a whole is idempotent on a content whenever
  the markup parser reads the preprocessed text back unchanged, which is when that text
  holds no markup and no character reference.
\<close>

theorem preprocess_content_idempotent:
  "flatten_text (flatten_text text) = flatten_text text
   \<and> (\<forall>output. preprocess_content env content = Inr output \<longrightarrow>
          soup_text env output = Inr output \<longrightarrow>
          preprocess_content env output = Inr output)"
  by (auto simp: preprocess_content_def flatten_text_idempotent split: sum.splits)

theorem preprocess_content_idempotent_witness:
  "preprocess_content (example_env []) ''<p>a  b</p>'' = Inr ''a\<newline>b''
   \<and> soup_text (example_env []) ''a\<newline>b'' = Inr ''a\<newline>b''
   \<and> preprocess_content (example_env []) ''a\<newline>b'' = Inr ''a\<newline>b''"
  using conjunct2 [OF preprocess_content_idempotent [of "''<p>a  b</p>''" "example_env []" "''<p>a  b</p>''"],
      rule_format, OF example_paragraph_text(1) example_paragraph_text(2)]
  by (simp only: example_paragraph_text simp_thms)

text \<open>
  C4 as stated fails on a content with escaped markup: its preprocessed text is markup,
  which a second preprocessing strips.
\<close>

theorem preprocess_content_counterexample:
  "preprocess_content (example_env []) ''&lt;b&gt;x&lt;/b&gt;'' = Inr ''<b>x</b>''
   \<and> preprocess_content (example_env []) ''<b>x</b>'' = Inr ''x''
   \<and> preprocess_content (example_env []) ''<b>x</b>''
       \<noteq> preprocess_content (example_env []) ''&lt;b&gt;x&lt;/b&gt;''"
  by (simp add: example_escaped_text)

section \<open>The query router\<close>

text \<open>
  C5. An input that starts with \<open>http\<close>, compared without case, takes the fetch path
  whatever the session holds: the reply and the new session are those of \<open>fetch_url\<close>,
  and the session names the input as its URL from then on. When the request and the
  preprocessing of the page succeed, the reply is the acknowledgment naming the URL and
  the three fields are set from the fetched content.
\<close>

theorem process_query_url:
  assumes "startswith (lower user_input) ''http''"
  shows "process_query env s user_input = fetch_url env s user_input
    \<and> current_url (snd (process_query env s user_input)) = Some user_input
    \<and> (\<forall>content text. requests_get env user_input = Inr content \<longrightarrow>
          preprocess_content env content = Inr text \<longrightarrow>
          process_query env s user_input =
            (Inr (''I've fetched and preprocessed the content from '' @ user_input
                    @ ''. What would you like to know about it?''),
             \<lparr>current_url = Some user_input, current_content = Some content,
                preprocessed_content = Some text\<rparr>))"
  using assms
  by (cases s)
     (simp add: process_query_def fetch_url_def fetch_content_def fetched_message_def Let_def
        split: sum.splits)

theorem process_query_url_witness:
  "startswith (lower ''https://example.com'') ''http''
   \<and> requests_get (example_env []) ''https://example.com''
       = Inr ''<html><body><h1>Example Domain</h1><p>More information...</p></body></html>''
   \<and> preprocess_content (example_env [])
         ''<html><body><h1>Example Domain</h1><p>More information...</p></body></html>''
       = Inr ''Example\<newline>DomainMore\<newline>information...''
   \<and> process_query (example_env [])
         \<lparr>current_url = Some ''https://example.com/escaped'',
            current_content = Some ''&lt;b&gt;x&lt;/b&gt;'',
            preprocessed_content = Some ''<b>x</b>''\<rparr>
         ''https://example.com''
       = (Inr ''I've fetched and preprocessed the content from https://example.com. What would you like to know about it?'',
          \<lparr>current_url = Some ''https://example.com'',
             current_content =
               Some ''<html><body><h1>Example Domain</h1><p>More information...</p></body></html>'',
             preprocessed_content = Some ''Example\<newline>DomainMore\<newline>information...''\<rparr>)"
proof -
  have url: "startswith (lower ''https://example.com'') ''http''"
    by code_simp
  have page: "requests_get (example_env []) ''https://example.com''
                = Inr ''<html><body><h1>Example Domain</h1><p>More information...</p></body></html>''"
    by (simp add: example_env_def example_web_def)
  note routed = process_query_url [OF url, where env = "example_env []"
        and s = "\<lparr>current_url = Some ''https://example.com/escaped'',
                   current_content = Some ''&lt;b&gt;x&lt;/b&gt;'',
                   preprocessed_content = Some ''<b>x</b>''\<rparr>"]
  from conjunct2 [OF conjunct2 [OF routed], rule_format, OF page example_page_text] url page
  show ?thesis
    by (simp only: example_page_text append.simps simp_thms)
qed

text \<open>
  C6. An input that does not start with \<open>http\<close>, on a session with no fetched page, is
  answered with the fixed message, and the session is left as it was.
\<close>

theorem process_query_without_page:
  assumes "\<not> startswith (lower user_input) ''http''" and "current_content s = None"
  shows "process_query env s user_input
           = (Inr ''Please provide a URL first before asking for information.'', s)"
  using assms by (simp add: process_query_def unset_def no_page_message_def)

theorem process_query_without_page_witness:
  "\<not> startswith (lower ''What is the title?'') ''http''
   \<and> current_content init = None
   \<and> process_query (example_env ''[]'') init ''What is the title?''
       = (Inr ''Please provide a URL first before asking for information.'', init)"
  using process_query_without_page [of "''What is the title?''" init "example_env ''[]''"]
  by (simp add: lower_question startswith_def init_def)

text \<open>
  C10. Whether a page is loaded is read off the truth value of the stored strings. After
  a fetch that succeeds with an empty content, or with a content whose preprocessing is
  empty, every query that is not a URL is answered with the "provide a URL first"
  message and leaves the session as it is, so a whole run of such queries gets that
  answer, as on an extractor that has fetched nothing.
\<close>

theorem run_queries_on_empty_page:
  assumes fetched: "requests_get env url = Inr content"
    and empty: "content = [] \<or> preprocess_content env content = Inr []"
    and questions: "\<forall>q \<in> set queries. \<not> startswith (lower q) ''http''"
  shows "run_queries env (snd (fetch_url env s url)) queries
           = (replicate (length queries)
                (Inr ''Please provide a URL first before asking for information.''),
              snd (fetch_url env s url))"
proof -
  let ?s = "snd (fetch_url env s url)"
  have state: "current_content ?s = Some content"
    using fetched by (simp add: fetch_url_def fetch_content_def Let_def split: sum.splits)
  have flat: "preprocessed_content ?s = Some []" if "preprocess_content env content = Inr []"
    using fetched that by (simp add: fetch_url_def fetch_content_def)
  have one: "process_query env ?s q = (Inr no_page_message, ?s)"
    if "\<not> startswith (lower q) ''http''" for q
  proof (cases "content = []")
    case True
    with that state show ?thesis
      by (simp add: process_query_def unset_def)
  next
    case False
    with empty have "preprocess_content env content = Inr []"
      by simp
    with that state flat False show ?thesis
      by (simp add: process_query_def unset_def extract_info_def)
  qed
  from questions show ?thesis
  proof (induction queries)
    case Nil
    show ?case by simp
  next
    case (Cons q queries)
    then show ?case
      by (simp add: one no_page_message_def)
  qed
qed

theorem run_queries_on_empty_page_witness:
  "requests_get (example_env []) ''https://example.com/blank'' = Inr ''<html><body><p> </p></body></html>''
   \<and> preprocess_content (example_env []) ''<html><body><p> </p></body></html>'' = Inr []
   \<and> requests_get (example_env []) ''https://example.com/empty'' = Inr []
   \<and> \<not> startswith (lower ''What is the title?'') ''http''
   \<and> \<not> startswith (lower ''Give me the links as JSON'') ''http''
   \<and> run_queries (example_env []) (snd (fetch_url (example_env []) init ''https://example.com/blank''))
         [''What is the title?'', ''Give me the links as JSON'']
       = ([Inr ''Please provide a URL first before asking for information.'',
           Inr ''Please provide a URL first before asking for information.''],
          \<lparr>current_url = Some ''https://example.com/blank'',
             current_content = Some ''<html><body><p> </p></body></html>'',
             preprocessed_content = Some []\<rparr>)
   \<and> run_queries (example_env []) (snd (fetch_url (example_env []) init ''https://example.com/empty''))
         [''What is the title?'', ''Give me the links as JSON'']
       = ([Inr ''Please provide a URL first before asking for information.'',
           Inr ''Please provide a URL first before asking for information.''],
          \<lparr>current_url = Some ''https://example.com/empty'',
             current_content = Some [],
             preprocessed_content = Some []\<rparr>)"
proof -
  have questions: "\<forall>q \<in> set [''What is the title?'', ''Give me the links as JSON''].
                     \<not> startswith (lower q) ''http''"
    by (simp add: lower_question lower_json_question startswith_def)
  have blank: "snd (fetch_url (example_env []) init ''https://example.com/blank'')
                 = \<lparr>current_url = Some ''https://example.com/blank'',
                      current_content = Some ''<html><body><p> </p></body></html>'',
                      preprocessed_content = Some []\<rparr>"
    by (simp add: fetch_url_def fetch_content_def example_fetch_blank example_blank_text init_def)
  have no_text: "preprocess_content (example_env []) [] = Inr []"
    by code_simp
  have empty: "snd (fetch_url (example_env []) init ''https://example.com/empty'')
                 = \<lparr>current_url = Some ''https://example.com/empty'',
                      current_content = Some [],
                      preprocessed_content = Some []\<rparr>"
    by (simp add: fetch_url_def fetch_content_def example_fetch_empty no_text init_def)
  from run_queries_on_empty_page [OF example_fetch_blank _ questions, of init]
    run_queries_on_empty_page [OF example_fetch_empty _ questions, of init] questions
  show ?thesis
    by (simp add: example_blank_text example_fetch_blank example_fetch_empty blank empty
          Let_def numeral_2_eq_2 del: run_queries.simps)
qed

section \<open>The prompt\<close>

text \<open>
  C9. On a session whose preprocessed content is present (and not empty, or no prompt is
  built), the model is called with the static instruction, the first 500 characters of
  the preprocessed content and the query as it was typed. The excerpt is the whole
  content when that has at most 500 characters, and nothing beyond the 500th character
  reaches the prompt: there is one path for every length.
\<close>

theorem extract_info_prompt:
  assumes "preprocessed_content s = Some content" and "content \<noteq> []"
  shows "extract_info env s query =
           (case generate env
                   (''Based on the following webpage content and the user's request, extract the relevant information.\<newline>''
                    @ ''        Always present the data as a JSON array of objects.\<newline>''
                    @ ''        Webpage content: '' @ take 500 content @ ''...\<newline>''
                    @ ''        Human: '' @ query @ ''\<newline>''
                    @ ''        AI:'') of
              Inl e \<Rightarrow> Inl e
            | Inr response \<Rightarrow> parse_response env response query)
    \<and> length (take 500 content) = min 500 (length content)
    \<and> (length content \<le> 500 \<longrightarrow> take 500 content = content)
    \<and> (\<forall>more. 500 \<le> length content \<longrightarrow>
          build_prompt (content @ more) query = build_prompt content query)"
  using assms by (simp add: extract_info_def build_prompt_def min_def)

theorem extract_info_prompt_witness:
  "preprocessed_content
     \<lparr>current_url = Some ''https://example.com/long'',
        current_content = Some (replicate 600 CHR ''a''),
        preprocessed_content = Some (replicate 600 CHR ''a'')\<rparr>
     = Some (replicate 600 CHR ''a'')
   \<and> replicate 600 CHR ''a'' \<noteq> []
   \<and> extract_info (example_env ''[]'')
         \<lparr>current_url = Some ''https://example.com/long'',
            current_content = Some (replicate 600 CHR ''a''),
            preprocessed_content = Some (replicate 600 CHR ''a'')\<rparr>
         ''What is the title?''
       = parse_response (example_env ''[]'') ''[]'' ''What is the title?''
   \<and> take 500 (replicate 600 CHR ''a'') = replicate 500 CHR ''a''
   \<and> build_prompt (replicate 600 CHR ''a'') ''What is the title?''
       = build_prompt (replicate 500 CHR ''a'') ''What is the title?''
   \<and> length ''Example\<newline>Domain'' \<le> 500
   \<and> take 500 ''Example\<newline>Domain'' = ''Example\<newline>Domain''"
proof -
  let ?s = "\<lparr>current_url = Some ''https://example.com/long'',
              current_content = Some (replicate 600 CHR ''a''),
              preprocessed_content = Some (replicate 600 CHR ''a'')\<rparr>"
  have present: "preprocessed_content ?s = Some (replicate 600 CHR ''a'')"
    by simp
  have nonempty: "replicate 600 CHR ''a'' \<noteq> []"
    by simp
  have split: "replicate 600 CHR ''a'' = replicate 500 CHR ''a'' @ replicate 100 CHR ''a''"
    by (simp add: replicate_add [symmetric])
  note long = extract_info_prompt [OF present nonempty, of "example_env ''[]''" "''What is the title?''"]
  have "extract_info (example_env ''[]'') ?s ''What is the title?''
          = parse_response (example_env ''[]'') ''[]'' ''What is the title?''"
    using conjunct1 [OF long] by (simp add: example_env_def)
  moreover have "build_prompt (replicate 500 CHR ''a'' @ replicate 100 CHR ''a'') ''What is the title?''
          = build_prompt (replicate 500 CHR ''a'') ''What is the title?''"
    using extract_info_prompt [of "?s\<lparr>preprocessed_content := Some (replicate 500 CHR ''a'')\<rparr>"
        "replicate 500 CHR ''a''" "example_env ''[]''" "''What is the title?''"]
    by simp
  moreover have "take 500 ''Example\<newline>Domain'' = ''Example\<newline>Domain''"
    using extract_info_prompt [of "?s\<lparr>preprocessed_content := Some ''Example\<newline>Domain''\<rparr>"
        "''Example\<newline>Domain''" "example_env ''[]''" "''What is the title?''"]
    by simp
  ultimately show ?thesis
    by (simp add: split)
qed

section \<open>The formatters\<close>

text \<open>
  C8. In CSV mode, data that decodes to the empty list gives exactly the fixed message
  "No data to convert to CSV.".
\<close>

theorem format_as_csv_empty:
  "loads env data = Some (JArr []) \<Longrightarrow> format_as_csv env data = Inr ''No data to convert to CSV.''"
  by (simp add: format_as_csv_def)

theorem format_as_csv_empty_witness:
  "loads (example_env []) (dumps (example_env []) (JArr [])) = Some (JArr [])
   \<and> format_as_csv (example_env []) (dumps (example_env []) (JArr []))
       = Inr ''No data to convert to CSV.''"
  using format_as_csv_empty [of "example_env []" "dumps (example_env []) (JArr [])"]
  by (simp add: example_env_def json_dumps_def json_loads_empty_array)

text \<open>
  C3, as amended. On data that does not decode, the JSON and the CSV formatter return
  the diagnostic with the first 500 characters of the data, and raise nothing; the
  plain-text formatter returns the data itself, whole and without a diagnostic.
\<close>

theorem formatters_on_invalid_json:
  assumes "loads env data = None"
  shows "format_as_json env data
           = Inr (''Error: Invalid JSON data. Raw data: '' @ take 500 data @ ''...'')
    \<and> format_as_csv env data
           = Inr (''Error: Invalid JSON data. Raw data: '' @ take 500 data @ ''...'')
    \<and> format_as_text env data = Inr data"
  using assms
  by (simp add: format_as_json_def format_as_csv_def format_as_text_def invalid_json_message_def)

theorem formatters_on_invalid_json_witness:
  "loads (example_env []) ''x y'' = None
   \<and> format_as_json (example_env []) ''x y'' = Inr ''Error: Invalid JSON data. Raw data: x y...''
   \<and> format_as_csv (example_env []) ''x y'' = Inr ''Error: Invalid JSON data. Raw data: x y...''
   \<and> format_as_text (example_env []) ''x y'' = Inr ''x y''"
  using formatters_on_invalid_json [of "example_env []" "''x y''"]
  by (simp add: example_env_def json_loads_not_json)

text \<open>
  C3 as stated fails in plain-text mode: data of 501 characters that does not decode
  comes back whole, all 501 characters of it, and is not the diagnostic.
\<close>

theorem format_as_text_counterexample:
  "loads (example_env []) (replicate 501 CHR ''x'') = None
   \<and> format_as_text (example_env []) (replicate 501 CHR ''x'') = Inr (replicate 501 CHR ''x'')
   \<and> length (replicate 501 CHR ''x'') = 501
   \<and> format_as_text (example_env []) (replicate 501 CHR ''x'')
       \<noteq> Inr (''Error: Invalid JSON data. Raw data: '' @ take 500 (replicate 501 CHR ''x'') @ ''...'')"
proof -
  have unfold: "replicate 501 CHR ''x'' = CHR ''x'' # replicate 500 CHR ''x''"
    by (simp add: replicate_Suc [symmetric] del: replicate_Suc)
  then have none: "json_loads (replicate 501 CHR ''x'') = None"
    by (simp only: json_loads_not_json)
  have "hd (replicate 501 CHR ''x'') \<noteq> hd (''Error: Invalid JSON data. Raw data: '' @ t)" for t
    by (simp add: unfold)
  then have "replicate 501 CHR ''x'' \<noteq> ''Error: Invalid JSON data. Raw data: '' @ t" for t
    by metis
  with none show ?thesis
    by (simp add: format_as_text_def example_env_def)
qed

text \<open>
  C7. A structured result, formatted in JSON mode from its serialization, comes back as
  the indented serialization inside the fenced block, and decoding that block gives the
  structured result again: the same rows in the same order, each with the same keys and
  values. This holds for every decoded value, a list of records in particular; that the
  keys of a record are distinct is what a Python \<open>dict\<close> guarantees.
\<close>

theorem format_as_json_round_trip:
  assumes "keys_unique v"
  shows "format_as_json (with_json env) (json_dumps v)
           = Inr (''```json\<newline>'' @ json_dumps_indent 2 v @ ''\<newline>```'')
    \<and> json_loads (json_dumps_indent 2 v) = Some v"
  using assms
  by (simp add: format_as_json_def with_json_def json_dumps_def json_dumps_indent_def
      json_loads_iterencode)

theorem format_as_json_round_trip_witness:
  "keys_unique (JArr [JObj [(''name'', JStr ''x''), (''val'', JInt 1)],
                      JObj [(''name'', JStr ''y''), (''val'', JInt 2)]])
   \<and> format_as_json (with_json (example_env []))
         ''[{\"name\": \"x\", \"val\": 1}, {\"name\": \"y\", \"val\": 2}]''
       = Inr ''```json\<newline>[\<newline>  {\<newline>    \"name\": \"x\",\<newline>    \"val\": 1\<newline>  },\<newline>  {\<newline>    \"name\": \"y\",\<newline>    \"val\": 2\<newline>  }\<newline>]\<newline>```''
   \<and> json_loads ''[\<newline>  {\<newline>    \"name\": \"x\",\<newline>    \"val\": 1\<newline>  },\<newline>  {\<newline>    \"name\": \"y\",\<newline>    \"val\": 2\<newline>  }\<newline>]''
       = Some (JArr [JObj [(''name'', JStr ''x''), (''val'', JInt 1)],
                     JObj [(''name'', JStr ''y''), (''val'', JInt 2)]])"
proof -
  have unique: "keys_unique (JArr [JObj [(''name'', JStr ''x''), (''val'', JInt 1)],
                                   JObj [(''name'', JStr ''y''), (''val'', JInt 2)]])"
    by simp
  from format_as_json_round_trip [OF unique, of "example_env []"] unique show ?thesis
    by (simp only: example_rows_dumps append.simps simp_thms)
qed

end
